theory Spec2Isabelle
  imports Complex_Main "HOL-Library.Word" "HOL-Library.Sublist"
begin

section \<open>ConnSailLib (conn.hh): data model\<close>

text \<open>
  The header works on \<^verbatim>\<open>double\<close>, \<^verbatim>\<open>std::vector<double>\<close> and
  \<^verbatim>\<open>std::vector< std::vector<double> >\<close>. A vector is a list and \<^verbatim>\<open>std::size_t\<close> is a
  64-bit word, so that \<^verbatim>\<open>++i\<close> wraps as it does in the code. A finite \<^verbatim>\<open>double\<close>
  is a real number, and there are two readings of the arithmetic on it.

  In double arithmetic every operation is rounded to the nearest double (\<open>rnd\<close> below) and
  a NaN is \<open>None\<close>. The conversions between a GPS coordinate and decimal degrees are in
  double arithmetic: they use \<^verbatim>\<open>+\<close>, \<^verbatim>\<open>-\<close>, \<^verbatim>\<open>*\<close>, \<^verbatim>\<open>/\<close> and \<^verbatim>\<open>floor\<close> only, whose
  results IEEE 754 fixes to the last bit. So is \<open>distance_double\<close>, the Haversine distance
  as the header computes it on doubles.

  Over the exact reals there is no rounding, no NaN, no infinity and no signed zero.
  \<open>distance\<close> and \<open>destination\<close> are the geodesic functions in this reading, through
  \<^verbatim>\<open>sin\<close>, \<^verbatim>\<open>cos\<close>, \<^verbatim>\<open>asin\<close>, \<^verbatim>\<open>atan2\<close>, \<^verbatim>\<open>sqrt\<close> and \<^verbatim>\<open>fmod\<close> as functions on the
  reals: what the header's formulas denote before any rounding.
\<close>

type_synonym GPSCoordinate = "real list"
type_synonym GPSPoint = "real list list"
type_synonym track = "real list list"
type_synonym size_t = "64 word"

text \<open>
  \<^verbatim>\<open>runtime_error\<close> is the exception the test functions throw, with its message.
\<close>

datatype error = runtime_error string

definition andThen :: "error + 'a \<Rightarrow> ('a \<Rightarrow> error + 'b) \<Rightarrow> error + 'b" where
  "andThen r f = (case r of Inl e \<Rightarrow> Inl e | Inr v \<Rightarrow> f v)"

subsection \<open>Library constants\<close>

definition conn_pi :: real where
  "conn_pi = 3.1415926535798932384626433"

definition earthRadius :: real where
  "earthRadius = 6371000"

definition semiMajorEarthAxis :: real where
  "semiMajorEarthAxis = 6378137"

definition semiMinorEarthAxis :: real where
  "semiMinorEarthAxis = 6356752.314245"

subsection \<open>Functions of the C library the header calls\<close>

text \<open>
  Over the exact reals \<^verbatim>\<open>sin\<close>, \<^verbatim>\<open>cos\<close> and \<^verbatim>\<open>sqrt\<close> are the functions of the same
  name and \<^verbatim>\<open>asin\<close> is \<^term>\<open>arcsin\<close>. \<^verbatim>\<open>floor\<close> returns a \<^verbatim>\<open>double\<close>;
  \<^verbatim>\<open>fmod x y\<close> is \<open>x - n * y\<close> for the quotient \<open>x / y\<close> truncated towards zero, so
  its result has the sign of \<open>x\<close>; \<^verbatim>\<open>atan2 y x\<close> is the angle of the point \<open>(x, y)\<close> in
  \<open>(-pi, pi]\<close>, and \<open>0\<close> at the origin.
\<close>

definition c_floor :: "real \<Rightarrow> real" where
  "c_floor x = real_of_int \<lfloor>x\<rfloor>"

definition c_trunc :: "real \<Rightarrow> int" where
  "c_trunc x = (if 0 \<le> x then \<lfloor>x\<rfloor> else \<lceil>x\<rceil>)"

definition c_fmod :: "real \<Rightarrow> real \<Rightarrow> real" where
  "c_fmod x y = x - real_of_int (c_trunc (x / y)) * y"

definition c_atan2 :: "real \<Rightarrow> real \<Rightarrow> real" where
  "c_atan2 y x =
     (if 0 < x then arctan (y / x)
      else if x < 0 then (if 0 \<le> y then arctan (y / x) + pi else arctan (y / x) - pi)
      else if 0 < y then pi / 2
      else if y < 0 then - (pi / 2)
      else 0)"

subsection \<open>Rounding to the nearest double\<close>

text \<open>
  \<open>rnd x\<close> is the double nearest to the real \<open>x\<close>, ties going to the even significand, as
  IEEE 754 rounds the result of \<^verbatim>\<open>+\<close>, \<^verbatim>\<open>-\<close>, \<^verbatim>\<open>*\<close> and \<^verbatim>\<open>/\<close> on doubles.
  \<open>exponent x\<close> is the binary exponent of \<open>x\<close>, found by a search from the exponent of the
  subnormal numbers upwards; doubles with that exponent are the multiples of
  \<open>2 powi (exponent x - 52)\<close>. Results beyond the largest double are not modelled, nor is
  a quotient by zero: the header divides by \<open>60\<close>, \<open>3600\<close> and \<open>180\<close>, and in
  \<^verbatim>\<open>calculateEarthRadius\<close> by a sum that the model tests.
\<close>

fun exponent_from :: "nat \<Rightarrow> int \<Rightarrow> real \<Rightarrow> int" where
  "exponent_from 0 e x = e"
| "exponent_from (Suc k) e x = (if x < 2 powi (e + 1) then e else exponent_from k (e + 1) x)"

definition exponent :: "real \<Rightarrow> int" where
  "exponent x = exponent_from 2045 (- 1022) \<bar>x\<bar>"

definition round_even :: "real \<Rightarrow> int" where
  "round_even y =
     (if y - real_of_int \<lfloor>y\<rfloor> < 1 / 2 then \<lfloor>y\<rfloor>
      else if 1 / 2 < y - real_of_int \<lfloor>y\<rfloor> then \<lfloor>y\<rfloor> + 1
      else if even \<lfloor>y\<rfloor> then \<lfloor>y\<rfloor> else \<lfloor>y\<rfloor> + 1)"

definition rnd :: "real \<Rightarrow> real" where
  "rnd x = real_of_int (round_even (x / 2 powi (exponent x - 52))) * 2 powi (exponent x - 52)"

definition double_add :: "real \<Rightarrow> real \<Rightarrow> real" where
  "double_add x y = rnd (x + y)"

definition double_sub :: "real \<Rightarrow> real \<Rightarrow> real" where
  "double_sub x y = rnd (x - y)"

definition double_mul :: "real \<Rightarrow> real \<Rightarrow> real" where
  "double_mul x y = rnd (x * y)"

definition double_div :: "real \<Rightarrow> real \<Rightarrow> real" where
  "double_div x y = rnd (x / y)"

text \<open>
  IEEE 754 also fixes \<^verbatim>\<open>sqrt\<close>, which is NaN on a negative number. The C standard does
  not fix the last bit of \<^verbatim>\<open>sin\<close>, \<^verbatim>\<open>cos\<close>, \<^verbatim>\<open>pow\<close> and \<^verbatim>\<open>atan2\<close>; in double
  arithmetic they are taken to return the double nearest to the exact value, as a correctly
  rounded C library does. \<open>double_equal\<close> is \<^verbatim>\<open>==\<close> on doubles, false when either side is
  NaN.
\<close>

definition double_sqrt :: "real \<Rightarrow> real option" where
  "double_sqrt x = (if x < 0 then None else Some (rnd (sqrt x)))"

definition double_sin :: "real \<Rightarrow> real" where
  "double_sin x = rnd (sin x)"

definition double_cos :: "real \<Rightarrow> real" where
  "double_cos x = rnd (cos x)"

definition double_pow :: "real \<Rightarrow> nat \<Rightarrow> real" where
  "double_pow x n = rnd (x ^ n)"

definition double_atan2 :: "real \<Rightarrow> real \<Rightarrow> real" where
  "double_atan2 y x = rnd (c_atan2 y x)"

definition double_equal :: "real option \<Rightarrow> real option \<Rightarrow> bool" where
  "double_equal x y = (case (x, y) of (Some u, Some v) \<Rightarrow> u = v | _ \<Rightarrow> False)"

section \<open>Test functions\<close>

definition failIfNotAGPSCoordinate :: "GPSCoordinate \<Rightarrow> error + unit" where
  "failIfNotAGPSCoordinate coordinate =
     (if 3 \<noteq> length coordinate
      then Inl (runtime_error ''GPS coordinate should have 3 values.'')
      else Inr ())"

definition failIfNotAGPSPoint :: "GPSPoint \<Rightarrow> error + unit" where
  "failIfNotAGPSPoint point =
     (if 2 \<noteq> length point
      then Inl (runtime_error ''GPS point should have 2 coordinates.'')
      else andThen (failIfNotAGPSCoordinate (point ! 0))
             (\<lambda>_. failIfNotAGPSCoordinate (point ! 1)))"

section \<open>Convert functions\<close>

definition radiansFromDegrees :: "real \<Rightarrow> real" where
  "radiansFromDegrees degrees = degrees * conn_pi / 180"

definition degreesFromRadians :: "real \<Rightarrow> real" where
  "degreesFromRadians radians = radians * 180 / conn_pi"

definition degreesFromGPSCoordinate :: "GPSCoordinate \<Rightarrow> error + real" where
  "degreesFromGPSCoordinate coordinate =
     andThen (failIfNotAGPSCoordinate coordinate)
       (\<lambda>_. Inr (double_add (double_add (coordinate ! 0) (double_div (coordinate ! 1) 60))
                   (double_div (coordinate ! 2) (double_mul 60 60))))"

definition radiansFromGPSCoordinate :: "GPSCoordinate \<Rightarrow> error + real" where
  "radiansFromGPSCoordinate coordinate =
     andThen (degreesFromGPSCoordinate coordinate) (\<lambda>d. Inr (radiansFromDegrees d))"

definition degreesFromGPSPoint :: "GPSPoint \<Rightarrow> error + real list" where
  "degreesFromGPSPoint point =
     andThen (failIfNotAGPSPoint point) (\<lambda>_.
     andThen (degreesFromGPSCoordinate (point ! 0)) (\<lambda>d0.
     andThen (degreesFromGPSCoordinate (point ! 1)) (\<lambda>d1.
     Inr [d0, d1])))"

definition radiansFromGPSPoint :: "GPSPoint \<Rightarrow> error + real list" where
  "radiansFromGPSPoint point =
     andThen (failIfNotAGPSPoint point) (\<lambda>_.
     andThen (degreesFromGPSCoordinate (point ! 0)) (\<lambda>d0.
     andThen (degreesFromGPSCoordinate (point ! 1)) (\<lambda>d1.
     Inr [radiansFromDegrees d0, radiansFromDegrees d1])))"

definition gpsCoordinateFromDegrees :: "real \<Rightarrow> GPSCoordinate" where
  "gpsCoordinateFromDegrees income =
     (let degrees = c_floor income;
          minutes = c_floor (double_mul (double_sub income degrees) 60);
          seconds = c_floor
            (double_mul (double_sub (double_sub income degrees) (double_div minutes 60)) 3600)
      in [degrees, minutes, seconds])"

definition gpsCoordinateFromRadians :: "real \<Rightarrow> GPSCoordinate" where
  "gpsCoordinateFromRadians income = gpsCoordinateFromDegrees (degreesFromRadians income)"

definition gpsPointFromDegrees :: "real \<Rightarrow> real \<Rightarrow> GPSPoint" where
  "gpsPointFromDegrees latitude longitude =
     [gpsCoordinateFromDegrees latitude, gpsCoordinateFromDegrees longitude]"

definition gpsPointFromRadians :: "real \<Rightarrow> real \<Rightarrow> GPSPoint" where
  "gpsPointFromRadians latitude longitude =
     [gpsCoordinateFromDegrees latitude, gpsCoordinateFromDegrees longitude]"

section \<open>Calculation functions\<close>

definition calculateEarthRadius :: "real \<Rightarrow> real" where
  "calculateEarthRadius latitude =
     (let beta = radiansFromDegrees latitude;
          a = semiMajorEarthAxis;
          b = semiMinorEarthAxis;
          A = (a * cos beta)\<^sup>2;
          B = (b * sin beta)\<^sup>2;
          radius = (a\<^sup>2 * A + b\<^sup>2 * B) / (A + B)
      in sqrt radius)"

definition distance :: "real \<Rightarrow> real \<Rightarrow> real \<Rightarrow> real \<Rightarrow> bool \<Rightarrow> real" where
  "distance latitude1 longitude1 latitude2 longitude2 shouldCalculateEarthRadius =
     (let radius = (if shouldCalculateEarthRadius
                    then calculateEarthRadius (0.5 * (latitude1 + latitude2))
                    else earthRadius);
          latitude1 = radiansFromDegrees latitude1;
          longitude1 = radiansFromDegrees longitude1;
          latitude2 = radiansFromDegrees latitude2;
          longitude2 = radiansFromDegrees longitude2;
          deltaLatitude = latitude2 - latitude1;
          deltaLongitude = longitude2 - longitude1;
          a = (sin (0.5 * deltaLatitude))\<^sup>2
              + cos latitude1 * cos latitude2 * (sin (0.5 * deltaLongitude))\<^sup>2;
          b = 2 * c_atan2 (sqrt a) (sqrt (1 - a))
      in radius * b)"

text \<open>
  The overload on two GPS points. Its call of the degree-based \<^verbatim>\<open>distance\<close> passes four
  arguments, so the fifth takes its default value \<^verbatim>\<open>false\<close>.
\<close>

definition distanceGPSPoint :: "GPSPoint \<Rightarrow> GPSPoint \<Rightarrow> bool \<Rightarrow> error + real" where
  "distanceGPSPoint point1 point2 shouldCalculateEarthRadius =
     andThen (failIfNotAGPSPoint point1) (\<lambda>_.
     andThen (failIfNotAGPSPoint point2) (\<lambda>_.
     andThen (degreesFromGPSCoordinate (point1 ! 0)) (\<lambda>latitude1.
     andThen (degreesFromGPSCoordinate (point1 ! 1)) (\<lambda>longitude1.
     andThen (degreesFromGPSCoordinate (point2 ! 0)) (\<lambda>latitude2.
     andThen (degreesFromGPSCoordinate (point2 ! 1)) (\<lambda>longitude2.
     Inr (distance latitude1 longitude1 latitude2 longitude2 False)))))))"

definition destination :: "real \<Rightarrow> real \<Rightarrow> real \<Rightarrow> real \<Rightarrow> bool \<Rightarrow> real list" where
  "destination latitude longitude distance' bearing shouldCalculateEarthRadius =
     (let radius = (if shouldCalculateEarthRadius
                    then calculateEarthRadius latitude
                    else earthRadius);
          angularDistance = distance' / radius;
          bearing = radiansFromDegrees bearing;
          latitude = radiansFromDegrees latitude;
          longitude = radiansFromDegrees longitude;
          sin1 = sin latitude;
          cos1 = cos latitude;
          sin2 = sin angularDistance;
          cos2 = cos angularDistance;
          sin3 = sin bearing;
          cos3 = cos bearing;
          sin4 = sin1 * cos2 + cos1 * sin2 * cos3;
          nextLatitude = arcsin sin4;
          y = sin3 * sin2 * cos1;
          x = cos2 - sin1 * sin4;
          nextLongitude = longitude + c_atan2 y x
      in [degreesFromRadians nextLatitude,
          c_fmod (degreesFromRadians nextLongitude + 540) 360 - 180])"

definition destinationGPSPoint :: "real \<Rightarrow> real \<Rightarrow> real \<Rightarrow> real \<Rightarrow> bool \<Rightarrow> GPSPoint" where
  "destinationGPSPoint latitude longitude distance' bearing shouldCalculateEarthRadius =
     (let result = destination latitude longitude distance' bearing shouldCalculateEarthRadius
      in gpsPointFromDegrees (result ! 0) (result ! 1))"

subsection \<open>The distance in double arithmetic\<close>

text \<open>
  The degree-based \<^verbatim>\<open>distance\<close> with \<^verbatim>\<open>radiansFromDegrees\<close> and \<^verbatim>\<open>calculateEarthRadius\<close>
  as they run on doubles, operation by operation. The literals \<^verbatim>\<open>pi\<close> and
  \<^verbatim>\<open>semiMinorEarthAxis\<close> are not doubles and the compiler rounds them; \<^verbatim>\<open>earthRadius\<close>
  and \<^verbatim>\<open>semiMajorEarthAxis\<close> are whole numbers and \<open>0.5\<close>, \<open>1\<close>, \<open>2\<close> and \<open>180\<close> are
  doubles.

  \<open>largest_double\<close> is the largest finite double; a result beyond it is an infinity, which
  the sine and the cosine turn into NaN; such results are left out, and the theorem on
  \<open>distance_double\<close> bounds the coordinates.

  In \<^verbatim>\<open>calculateEarthRadius\<close> the divisor \<open>A + B\<close> is zero only when \<open>A\<close> and \<open>B\<close> are,
  and then the dividend is zero as well: the quotient is NaN. In \<^verbatim>\<open>distance\<close> a NaN from
  \<^verbatim>\<open>sqrt\<close> goes through \<^verbatim>\<open>atan2\<close> and the two products to the result.
\<close>

definition largest_double :: real where
  "largest_double = (2 ^ 53 - 1) * 2 ^ 971"

definition conn_pi_double :: real where
  "conn_pi_double = rnd conn_pi"

definition semiMinorEarthAxis_double :: real where
  "semiMinorEarthAxis_double = rnd semiMinorEarthAxis"

definition radiansFromDegrees_double :: "real \<Rightarrow> real" where
  "radiansFromDegrees_double degrees = double_div (double_mul degrees conn_pi_double) 180"

definition calculateEarthRadius_double :: "real \<Rightarrow> real option" where
  "calculateEarthRadius_double latitude =
     (let beta = radiansFromDegrees_double latitude;
          a = semiMajorEarthAxis;
          b = semiMinorEarthAxis_double;
          A = double_pow (double_mul a (double_cos beta)) 2;
          B = double_pow (double_mul b (double_sin beta)) 2
      in if double_add A B = 0 then None
         else double_sqrt
           (double_div (double_add (double_mul (double_pow a 2) A) (double_mul (double_pow b 2) B))
              (double_add A B)))"

definition distance_double :: "real \<Rightarrow> real \<Rightarrow> real \<Rightarrow> real \<Rightarrow> bool \<Rightarrow> real option" where
  "distance_double latitude1 longitude1 latitude2 longitude2 shouldCalculateEarthRadius =
     (let radius = (if shouldCalculateEarthRadius
                    then calculateEarthRadius_double (double_mul 0.5 (double_add latitude1 latitude2))
                    else Some earthRadius);
          latitude1 = radiansFromDegrees_double latitude1;
          longitude1 = radiansFromDegrees_double longitude1;
          latitude2 = radiansFromDegrees_double latitude2;
          longitude2 = radiansFromDegrees_double longitude2;
          deltaLatitude = double_sub latitude2 latitude1;
          deltaLongitude = double_sub longitude2 longitude1;
          a = double_add (double_pow (double_sin (double_mul 0.5 deltaLatitude)) 2)
                (double_mul (double_mul (double_cos latitude1) (double_cos latitude2))
                   (double_pow (double_sin (double_mul 0.5 deltaLongitude)) 2));
          b = (case (double_sqrt a, double_sqrt (double_sub 1 a)) of
                 (Some y, Some x) \<Rightarrow> Some (double_mul 2 (double_atan2 y x))
               | _ \<Rightarrow> None)
      in case (radius, b) of
           (Some radius, Some b) \<Rightarrow> Some (double_mul radius b)
         | _ \<Rightarrow> None)"

section \<open>Track functions\<close>

text \<open>
  A track generator takes the track by reference and appends to it with \<^verbatim>\<open>push_back\<close>.
  The model takes the track and returns the outcome of the call with the track as the call
  leaves it: \<open>Returns points\<close> after a normal return; \<open>Throws points\<close> when
  \<^verbatim>\<open>push_back\<close> throws \<^verbatim>\<open>std::bad_alloc\<close> or \<^verbatim>\<open>std::length_error\<close>, which
  leaves the points appended so far in the caller's vector; \<open>Undefined_behaviour\<close> when the
  call reads outside a vector through \<^verbatim>\<open>operator[]\<close>.

  How many points the vector can hold depends on the machine and on the run. The generators
  take it as the parameter \<open>capacity\<close>, a \<^verbatim>\<open>size_t\<close> as \<^verbatim>\<open>max_size()\<close> is:
  \<^verbatim>\<open>push_back\<close> succeeds on a track of fewer than \<open>capacity\<close> points and throws otherwise.
\<close>

datatype outcome = Returns track | Throws track | Undefined_behaviour

definition continue_with :: "outcome \<Rightarrow> (track \<Rightarrow> outcome) \<Rightarrow> outcome" where
  "continue_with r f =
     (case r of Returns points \<Rightarrow> f points
              | Throws points \<Rightarrow> Throws points
              | Undefined_behaviour \<Rightarrow> Undefined_behaviour)"

function line_loop ::
  "size_t \<Rightarrow> size_t \<Rightarrow> size_t \<Rightarrow> real \<Rightarrow> real \<Rightarrow> real \<Rightarrow> real \<Rightarrow> track \<Rightarrow> outcome" where
  "line_loop capacity i numberOfPoints xOffset yOffset xLength yLength points =
     (if i \<le> numberOfPoints
      then let cut = real (unat i) / real (unat numberOfPoints)
           in if length points < unat capacity
              then line_loop capacity (i + 1) numberOfPoints xOffset yOffset xLength yLength
                     (points @ [[xOffset + cut * xLength, yOffset + cut * yLength]])
              else Throws points
      else Returns points)"
  by pat_completeness auto
termination
  by (relation "measure (\<lambda>(capacity, i, numberOfPoints, xOffset, yOffset, xLength, yLength,
        points). unat capacity - length points)") auto

definition line :: "size_t \<Rightarrow> track \<Rightarrow> real \<Rightarrow> real \<Rightarrow> size_t \<Rightarrow> outcome" where
  "line capacity points len angle numberOfPoints =
     (if points = [] \<or> length (points ! (length points - 1)) < 2
      then Undefined_behaviour
      else let xOffset = points ! (length points - 1) ! 0;
               yOffset = points ! (length points - 1) ! 1;
               xLength = len * sin angle;
               yLength = len * cos angle
           in line_loop capacity 1 numberOfPoints xOffset yOffset xLength yLength points)"

function rectangle_loop ::
  "size_t \<Rightarrow> size_t \<Rightarrow> real \<Rightarrow> real \<Rightarrow> real \<Rightarrow> real \<Rightarrow> size_t \<Rightarrow> track \<Rightarrow> outcome" where
  "rectangle_loop capacity i len angle width height numberOfPoints points =
     (if i < 4
      then continue_with (line capacity points len angle numberOfPoints) (\<lambda>points.
             rectangle_loop capacity (i + 1) (if 0 = i mod 2 then height else width)
               (angle + 0.5 * conn_pi) width height numberOfPoints points)
      else Returns points)"
  by pat_completeness auto
termination
proof (relation "measure (\<lambda>(capacity, i, rest). 4 - unat i)", goal_cases)
  case 1
  show ?case by simp
next
  case (2 capacity i len angle width height numberOfPoints points x)
  then have "unat i < 4" by (simp add: word_less_nat_alt)
  moreover from this have "unat (i + 1) = unat i + 1"
    by (simp add: unat_add_lem [THEN iffD1])
  ultimately show ?case by simp
qed

definition rectangle ::
  "size_t \<Rightarrow> track \<Rightarrow> real \<Rightarrow> real \<Rightarrow> real \<Rightarrow> size_t \<Rightarrow> outcome" where
  "rectangle capacity points width height angle numberOfPoints =
     rectangle_loop capacity 0 width angle width height numberOfPoints points"

definition square :: "size_t \<Rightarrow> track \<Rightarrow> real \<Rightarrow> real \<Rightarrow> size_t \<Rightarrow> outcome" where
  "square capacity points len angle numberOfPoints =
     rectangle capacity points len len angle numberOfPoints"

function spiral_loop ::
  "size_t \<Rightarrow> size_t \<Rightarrow> size_t \<Rightarrow> real \<Rightarrow> real \<Rightarrow> real \<Rightarrow> real \<Rightarrow> real \<Rightarrow> real \<Rightarrow> track
   \<Rightarrow> outcome" where
  "spiral_loop capacity i numberOfPoints xOffset yOffset initialRadius initialAngle finishRadius
       finishAngle points =
     (if i \<le> numberOfPoints
      then let cut = real (unat i) / real (unat numberOfPoints);
               radius = initialRadius + cut * (finishRadius - initialRadius);
               angle = initialAngle + cut * (finishAngle - initialAngle)
           in if length points < unat capacity
              then spiral_loop capacity (i + 1) numberOfPoints xOffset yOffset initialRadius
                     initialAngle finishRadius finishAngle
                     (points @ [[xOffset + radius * sin angle, yOffset + radius * cos angle]])
              else Throws points
      else Returns points)"
  by pat_completeness auto
termination
  by (relation "measure (\<lambda>(capacity, i, numberOfPoints, xOffset, yOffset, initialRadius,
        initialAngle, finishRadius, finishAngle, points). unat capacity - length points)") auto

definition spiral ::
  "size_t \<Rightarrow> track \<Rightarrow> real \<Rightarrow> real \<Rightarrow> real \<Rightarrow> real \<Rightarrow> size_t \<Rightarrow> outcome" where
  "spiral capacity points initialRadius initialAngle finishRadius finishAngle numberOfPoints =
     (if points = [] \<or> length (points ! (length points - 1)) < 2
      then Undefined_behaviour
      else let xOffset = points ! (length points - 1) ! 0 - initialRadius * sin initialAngle;
               yOffset = points ! (length points - 1) ! 1 - initialRadius * cos initialAngle
           in spiral_loop capacity 1 numberOfPoints xOffset yOffset initialRadius initialAngle
                finishRadius finishAngle points)"

definition sector ::
  "size_t \<Rightarrow> track \<Rightarrow> real \<Rightarrow> real \<Rightarrow> real \<Rightarrow> size_t \<Rightarrow> outcome" where
  "sector capacity points radius initialAngle finishAngle numberOfPoints =
     spiral capacity points radius initialAngle radius finishAngle numberOfPoints"

definition circle :: "size_t \<Rightarrow> track \<Rightarrow> real \<Rightarrow> real \<Rightarrow> size_t \<Rightarrow> outcome" where
  "circle capacity points radius angle numberOfPoints =
     spiral capacity points radius angle radius (angle + 2 * conn_pi) numberOfPoints"

function squiggle_loop ::
  "size_t \<Rightarrow> size_t \<Rightarrow> size_t \<Rightarrow> size_t \<Rightarrow> real \<Rightarrow> real \<Rightarrow> real \<Rightarrow> real \<Rightarrow> real \<Rightarrow> real \<Rightarrow> track
   \<Rightarrow> outcome" where
  "squiggle_loop capacity i numberOfLines numberOfPoints len radius rotationAngle angle nextAngle
       initialRotationAngle points =
     (if i < numberOfLines
      then continue_with
             (sector capacity points radius (angle + initialRotationAngle)
                (nextAngle + initialRotationAngle) numberOfPoints) (\<lambda>points.
           let angle = nextAngle;
               initialRotationAngle = initialRotationAngle * (- 1)
           in continue_with (line capacity points len angle numberOfPoints) (\<lambda>points.
                squiggle_loop capacity (i + 1) numberOfLines numberOfPoints len radius
                  rotationAngle angle
                  (if 0 = i mod 2 then nextAngle + rotationAngle else nextAngle - rotationAngle)
                  initialRotationAngle points))
      else Returns points)"
  by pat_completeness auto
termination
proof (relation "measure (\<lambda>(capacity, i, numberOfLines, rest). unat numberOfLines - unat i)",
    goal_cases)
  case 1
  show ?case by simp
next
  case (2 capacity i numberOfLines numberOfPoints len radius rotationAngle angle nextAngle
      initialRotationAngle points x xa xb xc)
  then have lt: "unat i < unat numberOfLines" by (simp add: word_less_nat_alt)
  have "unat numberOfLines < 2 ^ 64" using unsigned_less [of numberOfLines] by simp
  with lt have "unat (i + 1) = unat i + 1"
    by (simp add: unat_add_lem [THEN iffD1])
  with lt show ?case by simp
qed

definition squiggle ::
  "size_t \<Rightarrow> track \<Rightarrow> real \<Rightarrow> real \<Rightarrow> real \<Rightarrow> real \<Rightarrow> size_t \<Rightarrow> size_t \<Rightarrow> outcome" where
  "squiggle capacity points len radius angle rotationAngle numberOfLines numberOfPoints =
     continue_with (line capacity points len angle numberOfPoints) (\<lambda>points.
     let nextAngle = angle + rotationAngle;
         initialRotationAngle = - 0.5 * conn_pi
     in squiggle_loop capacity 1 numberOfLines numberOfPoints len radius rotationAngle angle
          nextAngle initialRotationAngle points)"

definition letterPi ::
  "size_t \<Rightarrow> track \<Rightarrow> real \<Rightarrow> real \<Rightarrow> real \<Rightarrow> real \<Rightarrow> size_t \<Rightarrow> outcome" where
  "letterPi capacity points verticalLength horizontalLength radius angle numberOfPoints =
     (let angle = angle + conn_pi;
          rotationAngle = - 0.5 * conn_pi
      in continue_with (sector capacity points radius angle (angle + rotationAngle) numberOfPoints)
           (\<lambda>points.
         let angle = angle + 2 * rotationAngle
         in continue_with (line capacity points verticalLength angle numberOfPoints) (\<lambda>points.
         let angle = angle - rotationAngle;
             rotationAngle = rotationAngle * 3
         in continue_with
              (sector capacity points radius angle (angle + rotationAngle) numberOfPoints)
              (\<lambda>points.
            continue_with (line capacity points horizontalLength angle numberOfPoints) (\<lambda>points.
         let angle = angle + - rotationAngle / 3
         in continue_with
              (sector capacity points radius angle (angle + rotationAngle) numberOfPoints)
              (\<lambda>points.
            continue_with (line capacity points verticalLength angle numberOfPoints) (\<lambda>points.
         let rotationAngle = rotationAngle / 3;
             angle = angle - rotationAngle
         in sector capacity points radius angle (angle + rotationAngle) numberOfPoints)))))))"

text \<open>
  Every generator reads the last point of the track, the pole, before it appends. A track
  is \<open>anchored\<close> when that read stays inside the vectors: the track is not empty and its
  last point has at least two components. A track of planar points \<open>(x, y)\<close> with a seed
  point is anchored.
\<close>

definition anchored :: "track \<Rightarrow> bool" where
  "anchored points \<longleftrightarrow> points \<noteq> [] \<and> 2 \<le> length (points ! (length points - 1))"

text \<open>
  \<open>grows capacity m points r\<close> describes an outcome \<open>r\<close> of a call on the track
  \<open>points\<close> that stays inside the vectors: the track the call leaves is \<open>points\<close>
  followed by new two-component points, exactly \<open>m\<close> of them after a normal return and
  fewer than \<open>m\<close> after a throw, which happens only when \<open>m\<close> more points do not fit.
  \<open>throws r\<close> says that the outcome is a throw.
\<close>

definition grows :: "size_t \<Rightarrow> nat \<Rightarrow> track \<Rightarrow> outcome \<Rightarrow> bool" where
  "grows capacity m points r \<longleftrightarrow>
     (case r of
        Returns points' \<Rightarrow>
          (\<exists>added. points' = points @ added \<and> length added = m
             \<and> (\<forall>p \<in> set added. length p = 2))
      | Throws points' \<Rightarrow>
          (\<exists>added. points' = points @ added \<and> length added < m
             \<and> (\<forall>p \<in> set added. length p = 2))
          \<and> unat capacity < length points + m
      | Undefined_behaviour \<Rightarrow> False)"


declare line_loop.simps [simp del] spiral_loop.simps [simp del]
  rectangle_loop.simps [simp del] squiggle_loop.simps [simp del]

section \<open>Rounding: how to evaluate it\<close>

lemma exponent_from_eq:
  "e0 \<le> e \<Longrightarrow> nat (e - e0) \<le> k \<Longrightarrow> x < 2 powi (e + 1) \<Longrightarrow>
   (e0 < e \<Longrightarrow> 2 powi e \<le> x) \<Longrightarrow> exponent_from k e0 x = e"
proof (induction k arbitrary: e0)
  case 0
  then show ?case by simp
next
  case (Suc k)
  show ?case
  proof (cases "x < 2 powi (e0 + 1)")
    case True
    have "e = e0"
    proof (rule ccontr)
      assume "e \<noteq> e0"
      with Suc.prems(1) have l: "e0 < e" by simp
      then have "(2 :: real) powi (e0 + 1) \<le> 2 powi e"
        by (intro power_int_increasing) simp_all
      with Suc.prems(4) [OF l] True show False by simp
    qed
    with True show ?thesis by simp
  next
    case False
    with Suc.prems(3) have "e \<noteq> e0" by auto
    with Suc.prems(1) have l: "e0 + 1 \<le> e" by simp
    with Suc.prems(2) have "nat (e - (e0 + 1)) \<le> k" by simp
    from Suc.IH [OF l this Suc.prems(3)] Suc.prems(4) l False show ?thesis by simp
  qed
qed

lemma exponent_eq:
  assumes "- 1022 \<le> e" "e \<le> 1023" "\<bar>x\<bar> < 2 powi (e + 1)" "- 1022 < e \<Longrightarrow> 2 powi e \<le> \<bar>x\<bar>"
  shows "exponent x = e"
  unfolding exponent_def using assms by (intro exponent_from_eq) simp_all

lemma rnd_eq:
  assumes "- 1022 \<le> e" "e \<le> 1023" "\<bar>x\<bar> < 2 powi (e + 1)" "- 1022 < e \<Longrightarrow> 2 powi e \<le> \<bar>x\<bar>"
  shows "rnd x = real_of_int (round_even (x / 2 powi (e - 52))) * 2 powi (e - 52)"
proof -
  have "exponent x = e" using assms by (rule exponent_eq)
  then show ?thesis by (simp only: rnd_def)
qed

lemma round_even_int: "round_even (real_of_int k) = k"
  by (simp add: round_even_def)

lemma rnd_0: "rnd 0 = 0"
  by (simp add: rnd_def round_even_def)

lemma rnd_1: "rnd 1 = 1"
proof -
  have "rnd 1 = real_of_int (round_even (1 / 2 powi (0 - 52))) * 2 powi (0 - 52)"
    by (rule rnd_eq) simp_all
  also have "1 / (2 :: real) powi (0 - 52) = real_of_int (2 ^ 52)" by simp
  finally show ?thesis by (simp only: round_even_int) simp
qed

section \<open>Rounding: sign, size and bounds\<close>

text \<open>
  Rounding commutes with the sign, keeps a number on its side of zero and of a power of two,
  and is decided by rational bounds on the number that lie between two neighbouring
  midpoints.
\<close>

lemma round_even_minus: "round_even (- y) = - round_even y"
proof (cases "y = real_of_int \<lfloor>y\<rfloor>")
  case True
  then obtain k where "y = real_of_int k" ..
  then have "- y = real_of_int (- k)" by simp
  then show ?thesis unfolding \<open>y = real_of_int k\<close> by (simp only: round_even_int)
next
  case False
  then have f: "\<lfloor>- y\<rfloor> = - \<lfloor>y\<rfloor> - 1"
    by (metis ceiling_altdef ceiling_def add_diff_cancel_right' minus_diff_eq minus_minus diff_minus_eq_add uminus_add_conv_diff)
  show ?thesis
    unfolding round_even_def f by (auto simp: algebra_simps)
qed

lemma exponent_minus: "exponent (- x) = exponent x"
  by (simp add: exponent_def)

lemma rnd_minus: "rnd (- x) = - rnd x"
  by (simp add: rnd_def exponent_minus round_even_minus)

lemma round_even_ge: "real_of_int N \<le> y \<Longrightarrow> N \<le> round_even y"
  unfolding round_even_def by (auto simp: le_floor_iff) linarith+

lemma exponent_from_props:
  "exponent_from k e0 x = e \<Longrightarrow>
   e0 \<le> e \<and> e \<le> e0 + int k \<and> (e0 < e \<longrightarrow> 2 powi e \<le> x) \<and> (e < e0 + int k \<longrightarrow> x < 2 powi (e + 1))"
proof (induction k arbitrary: e0)
  case 0
  then show ?case by simp
next
  case (Suc k)
  show ?case
  proof (cases "x < 2 powi (e0 + 1)")
    case True
    with Suc.prems have "e = e0" by simp
    with True show ?thesis by simp
  next
    case False
    with Suc.prems have "exponent_from k (e0 + 1) x = e" by simp
    from Suc.IH [OF this]
    have 1: "e0 + 1 \<le> e" and 2: "e \<le> e0 + 1 + int k"
      and 3: "e0 + 1 < e \<longrightarrow> 2 powi e \<le> x"
      and 4: "e < e0 + 1 + int k \<longrightarrow> x < 2 powi (e + 1)"
      by simp_all
    have "2 powi e \<le> x"
    proof (cases "e = e0 + 1")
      case True
      with False show ?thesis by simp
    next
      case False
      with 1 3 show ?thesis by simp
    qed
    with 1 2 4 show ?thesis by simp
  qed
qed

lemma exponent_props:
  "- 1022 \<le> exponent x" "exponent x \<le> 1023"
  "- 1022 < exponent x \<Longrightarrow> 2 powi exponent x \<le> \<bar>x\<bar>"
  "exponent x < 1023 \<Longrightarrow> \<bar>x\<bar> < 2 powi (exponent x + 1)"
  using exponent_from_props [of 2045 "- 1022" "\<bar>x\<bar>" "exponent x"]
  by (simp_all add: exponent_def)


lemma rnd_nonneg: "0 \<le> x \<Longrightarrow> 0 \<le> rnd x"
proof -
  assume "0 \<le> x"
  then have "real_of_int 0 \<le> x / 2 powi (exponent x - 52)" by simp
  then have "0 \<le> round_even (x / 2 powi (exponent x - 52))" by (rule round_even_ge)
  then show ?thesis by (simp add: rnd_def)
qed

lemma rnd_ge_power:
  assumes "- 1022 \<le> e" "e \<le> 1023" "2 powi e \<le> x"
  shows "2 powi e \<le> rnd x"
proof -
  define E where "E = exponent x"
  have x: "0 < x" using assms(3) by (rule less_le_trans [rotated]) simp
  then have ax: "\<bar>x\<bar> = x" by simp
  have le: "e \<le> E"
  proof (rule ccontr)
    assume "\<not> e \<le> E"
    then have l: "E + 1 \<le> e" by simp
    with assms(2) have "exponent x < 1023" by (simp add: E_def)
    then have "x < 2 powi (E + 1)" using exponent_props(4) [of x] ax by (simp add: E_def)
    also have "(2 :: real) powi (E + 1) \<le> 2 powi e"
      using l by (intro power_int_increasing) simp_all
    finally show False using assms(3) by simp
  qed
  have low: "2 powi E \<le> x"
  proof (cases "- 1022 < E")
    case True
    then show ?thesis using exponent_props(3) [of x] ax by (simp add: E_def)
  next
    case False
    with le assms(1) have "E = e" by simp
    with assms(3) show ?thesis by simp
  qed
  have "(2 :: real) powi (52 + (E - 52)) = 2 powi 52 * 2 powi (E - 52)"
    by (rule power_int_add) simp
  then have split: "(2 :: real) powi E = 2 powi 52 * 2 powi (E - 52)"
    by (simp only: add_diff_cancel_left' add.commute [of 52] diff_add_cancel)
  with low have "2 powi 52 * 2 powi (E - 52) \<le> x" by (simp only:)
  then have "(2 :: real) powi 52 \<le> x / 2 powi (E - 52)"
    by (simp add: pos_le_divide_eq)
  moreover have "(2 :: real) powi 52 = real_of_int (2 ^ 52)" by simp
  ultimately have "real_of_int (2 ^ 52) \<le> x / 2 powi (E - 52)" by simp
  then have "2 ^ 52 \<le> round_even (x / 2 powi (E - 52))" by (rule round_even_ge)
  then have "real_of_int (2 ^ 52) \<le> real_of_int (round_even (x / 2 powi (E - 52)))"
    by (simp only: of_int_le_iff)
  then have "real_of_int (2 ^ 52) * 2 powi (E - 52) \<le> rnd x"
    unfolding rnd_def E_def by (intro mult_right_mono) simp_all
  moreover have "real_of_int (2 ^ 52) * 2 powi (E - 52) = (2 :: real) powi E"
    unfolding split by simp
  moreover have "(2 :: real) powi e \<le> 2 powi E"
    using le by (intro power_int_increasing) simp_all
  ultimately show ?thesis by simp
qed

lemma rnd_abs_ge_power:
  assumes "- 1022 \<le> e" "e \<le> 1023" "2 powi e \<le> \<bar>x\<bar>"
  shows "2 powi e \<le> \<bar>rnd x\<bar>"
proof (cases "0 \<le> x")
  case True
  with assms have "2 powi e \<le> rnd x" by (intro rnd_ge_power) simp_all
  then show ?thesis by simp
next
  case False
  with assms have "2 powi e \<le> rnd (- x)" by (intro rnd_ge_power) simp_all
  then show ?thesis by (simp add: rnd_minus)
qed

lemma round_even_near:
  assumes "real_of_int N - 1 / 2 < y" "y < real_of_int N + 1 / 2"
  shows "round_even y = N"
proof (cases "real_of_int N \<le> y")
  case True
  with assms(2) have "\<lfloor>y\<rfloor> = N" by (intro floor_unique) simp_all
  with assms(2) show ?thesis by (simp add: round_even_def)
next
  case False
  with assms(1) have "\<lfloor>y\<rfloor> = N - 1" by (intro floor_unique) simp_all
  with assms(1) show ?thesis by (simp add: round_even_def)
qed

lemma rnd_between:
  assumes "- 1022 \<le> e" "e \<le> 1023" "lo \<le> x" "x \<le> hi" "2 powi e \<le> lo" "hi < 2 powi (e + 1)"
    and "real_of_int N - 1 / 2 < lo / 2 powi (e - 52)"
    and "hi / 2 powi (e - 52) < real_of_int N + 1 / 2"
  shows "rnd x = real_of_int N * 2 powi (e - 52)"
proof -
  have "(0 :: real) < 2 powi e" by simp
  with assms(3,5) have x: "0 < x" by linarith
  have "rnd x = real_of_int (round_even (x / 2 powi (e - 52))) * 2 powi (e - 52)"
    using assms(1-6) x by (intro rnd_eq) simp_all
  moreover have "round_even (x / 2 powi (e - 52)) = N"
  proof (rule round_even_near)
    have "lo / 2 powi (e - 52) \<le> x / 2 powi (e - 52)"
      using assms(3) by (intro divide_right_mono) simp_all
    with assms(7) show "real_of_int N - 1 / 2 < x / 2 powi (e - 52)" by simp
    have "x / 2 powi (e - 52) \<le> hi / 2 powi (e - 52)"
      using assms(4) by (intro divide_right_mono) simp_all
    with assms(8) show "x / 2 powi (e - 52) < real_of_int N + 1 / 2" by simp
  qed
  ultimately show ?thesis by simp
qed

lemma rnd_near_one:
  assumes "1 - 2 powi (- 54) < x" "x \<le> 1"
  shows "rnd x = 1"
proof (cases "x = 1")
  case True
  then show ?thesis by (simp add: rnd_1)
next
  case False
  with assms(2) have l: "x < 1" by simp
  have h: "(1 :: real) / 2 < 1 - 2 powi (- 54)" by (simp add: power_int_minus)
  with assms(1) have p: "1 / 2 < x" by linarith
  have "rnd x = real_of_int (round_even (x / 2 powi (- 1 - 52))) * 2 powi (- 1 - 52)"
    using l p by (intro rnd_eq) (simp_all add: power_int_minus)
  moreover have "round_even (x / 2 powi (- 1 - 52)) = 2 ^ 53"
  proof (rule round_even_near)
    have "(1 - 2 powi (- 54)) * 2 ^ 53 < x * 2 ^ 53"
      using assms(1) by (intro mult_strict_right_mono) simp_all
    then show "real_of_int (2 ^ 53) - 1 / 2 < x / 2 powi (- 1 - 52)"
      by (simp add: power_int_minus field_simps)
    have "x * 2 ^ 53 < 1 * 2 ^ 53"
      using l by (intro mult_strict_right_mono) simp_all
    then show "x / 2 powi (- 1 - 52) < real_of_int (2 ^ 53) + 1 / 2"
      by (simp add: power_int_minus field_simps)
  qed
  ultimately show ?thesis by (simp add: power_int_minus)
qed

section \<open>Shape validation\<close>

lemma failIfNotAGPSCoordinate_iff:
  "isl (failIfNotAGPSCoordinate c) \<longleftrightarrow> length c \<noteq> 3"
  by (auto simp: failIfNotAGPSCoordinate_def)

lemma failIfNotAGPSCoordinate_ok:
  "length c = 3 \<Longrightarrow> failIfNotAGPSCoordinate c = Inr ()"
  by (simp add: failIfNotAGPSCoordinate_def)

lemma failIfNotAGPSPoint_ok:
  "length p = 2 \<Longrightarrow> length (p ! 0) = 3 \<Longrightarrow> length (p ! 1) = 3 \<Longrightarrow>
   failIfNotAGPSPoint p = Inr ()"
  by (simp add: failIfNotAGPSPoint_def failIfNotAGPSCoordinate_def andThen_def)

lemma degreesFromGPSCoordinate_ok:
  "length c = 3 \<Longrightarrow>
   degreesFromGPSCoordinate c =
     Inr (double_add (double_add (c ! 0) (double_div (c ! 1) 60))
            (double_div (c ! 2) (double_mul 60 60)))"
  by (simp add: degreesFromGPSCoordinate_def failIfNotAGPSCoordinate_def andThen_def)

text \<open>
  C8. \<^verbatim>\<open>failIfNotAGPSCoordinate\<close> throws exactly when its argument does not have 3
  components, so it throws on the two-component \<open>[1, 2]\<close>; \<^verbatim>\<open>failIfNotAGPSPoint\<close>
  throws exactly when its argument does not have 2 coordinates or one of the two does not
  have 3 components. A call that does not throw returns the unit value: the functions take
  their argument by value and touch nothing else.
\<close>

theorem shape_validation:
  "(isl (failIfNotAGPSCoordinate c) \<longleftrightarrow> length c \<noteq> 3)
   \<and> failIfNotAGPSCoordinate [1, 2] = Inl (runtime_error ''GPS coordinate should have 3 values.'')
   \<and> (isl (failIfNotAGPSPoint p) \<longleftrightarrow>
        length p \<noteq> 2 \<or> length (p ! 0) \<noteq> 3 \<or> length (p ! 1) \<noteq> 3)
   \<and> (\<not> isl (failIfNotAGPSCoordinate c) \<longrightarrow> failIfNotAGPSCoordinate c = Inr ())
   \<and> (\<not> isl (failIfNotAGPSPoint p) \<longrightarrow> failIfNotAGPSPoint p = Inr ())"
  by (auto simp: failIfNotAGPSCoordinate_def failIfNotAGPSPoint_def andThen_def)

theorem shape_validation_witness:
  "isl (failIfNotAGPSCoordinate [1, 2])
   \<and> \<not> isl (failIfNotAGPSCoordinate [41, 59, 4])
   \<and> failIfNotAGPSCoordinate [41, 59, 4] = Inr ()
   \<and> isl (failIfNotAGPSPoint [[41, 59, 4], [2, 49]])
   \<and> isl (failIfNotAGPSPoint [[41, 59, 4]])
   \<and> \<not> isl (failIfNotAGPSPoint [[41, 59, 4], [2, 49, 16]])
   \<and> failIfNotAGPSPoint [[41, 59, 4], [2, 49, 16]] = Inr ()"
proof -
  note t1 = shape_validation [of "[1, 2]" "[[41, 59, 4], [2, 49]]"]
  note t2 = shape_validation [of "[41, 59, 4]" "[[41, 59, 4]]"]
  note t3 = shape_validation [of "[41, 59, 4]" "[[41, 59, 4], [2, 49, 16]]"]
  have a: "isl (failIfNotAGPSCoordinate [1, 2])" using t1 by simp
  have b: "\<not> isl (failIfNotAGPSCoordinate [41, 59, 4])" using t2 by simp
  have c: "isl (failIfNotAGPSPoint [[41, 59, 4], [2, 49]])" using t1 by simp
  have d: "isl (failIfNotAGPSPoint [[41, 59, 4]])" using t2 by simp
  have e: "\<not> isl (failIfNotAGPSPoint [[41, 59, 4], [2, 49, 16]])" using t3 by simp
  from a b c d e t3 show ?thesis by blast
qed

section \<open>Degrees and radians to GPS points\<close>

lemma gpsPointFromRadians_no_conversion:
  "gpsPointFromRadians 1 2 = [[1, 0, 0], [2, 0, 0]]"
  by (simp add: gpsPointFromRadians_def gpsCoordinateFromDegrees_def c_floor_def
      double_sub_def double_mul_def double_div_def rnd_0)

lemma gpsCoordinateFromRadians_converts:
  "gpsCoordinateFromRadians conn_pi = [180, 0, 0]"
proof -
  have "conn_pi \<noteq> 0" by (simp add: conn_pi_def)
  then show ?thesis
    by (simp add: gpsCoordinateFromRadians_def degreesFromRadians_def gpsCoordinateFromDegrees_def
        c_floor_def double_sub_def double_mul_def double_div_def rnd_0)
qed

text \<open>
  C3. \<^verbatim>\<open>gpsPointFromRadians\<close> returns the GPS point that \<^verbatim>\<open>gpsPointFromDegrees\<close>
  returns on the same two arguments: its body decomposes them with
  \<^verbatim>\<open>gpsCoordinateFromDegrees\<close> and never converts radians to degrees.
\<close>

theorem gpsPointFromRadians_eq_gpsPointFromDegrees:
  "gpsPointFromRadians latitude longitude = gpsPointFromDegrees latitude longitude"
  by (simp add: gpsPointFromRadians_def gpsPointFromDegrees_def)

section \<open>Round trip through decimal degrees\<close>






















lemma half_degree_back: "gpsCoordinateFromDegrees 0.5 = [0, 30, 0]"
proof -
  have h: "double_sub 0.5 0 = 0.5"
  proof -
    have "rnd 0.5 = real_of_int (round_even (0.5 / 2 powi (- 1 - 52))) * 2 powi (- 1 - 52)"
      by (rule rnd_eq) simp_all
    moreover have "round_even (0.5 / 2 powi (- 1 - 52)) = 4503599627370496"
      by (simp add: round_even_def)
    ultimately show ?thesis by (simp add: double_sub_def)
  qed
  have t: "double_mul 0.5 60 = 30"
  proof -
    have "rnd 30 = real_of_int (round_even (30 / 2 powi (4 - 52))) * 2 powi (4 - 52)"
      by (rule rnd_eq) simp_all
    moreover have "round_even (30 / 2 powi (4 - 52)) = 8444249301319680"
      by (simp add: round_even_def)
    ultimately show ?thesis by (simp add: double_mul_def)
  qed
  have q: "double_div 30 60 = 0.5"
  proof -
    have "rnd 0.5 = real_of_int (round_even (0.5 / 2 powi (- 1 - 52))) * 2 powi (- 1 - 52)"
      by (rule rnd_eq) simp_all
    moreover have "round_even (0.5 / 2 powi (- 1 - 52)) = 4503599627370496"
      by (simp add: round_even_def)
    ultimately show ?thesis by (simp add: double_div_def)
  qed
  have z: "double_sub 0.5 0.5 = 0" "double_mul 0 3600 = 0"
    by (simp_all add: double_sub_def double_mul_def rnd_0)
  have f: "c_floor 0.5 = 0" "c_floor 30 = 30" "c_floor 0 = 0"
    by (simp_all add: c_floor_def)
  show ?thesis
    unfolding gpsCoordinateFromDegrees_def Let_def
    by (simp only: f h t q z)
qed


section \<open>Distance between two GPS points\<close>

lemma c_atan2_pos: "0 < y \<Longrightarrow> 0 \<le> x \<Longrightarrow> 0 < c_atan2 y x"
  by (auto simp: c_atan2_def)

lemma conn_pi_bounds: "3 < conn_pi" "conn_pi < 4"
  by (simp_all add: conn_pi_def)

lemma calculateEarthRadius_equator: "calculateEarthRadius 0 = semiMajorEarthAxis"
proof -
  have "0 < semiMajorEarthAxis" by (simp add: semiMajorEarthAxis_def)
  then show ?thesis
    by (simp add: calculateEarthRadius_def radiansFromDegrees_def Let_def power2_eq_square
        )
qed

lemma distanceGPSPoint_valid:
  assumes "length point1 = 2" "length (point1 ! 0) = 3" "length (point1 ! 1) = 3"
    and "length point2 = 2" "length (point2 ! 0) = 3" "length (point2 ! 1) = 3"
    and "degreesFromGPSCoordinate (point1 ! 0) = Inr latitude1"
    and "degreesFromGPSCoordinate (point1 ! 1) = Inr longitude1"
    and "degreesFromGPSCoordinate (point2 ! 0) = Inr latitude2"
    and "degreesFromGPSCoordinate (point2 ! 1) = Inr longitude2"
  shows "distanceGPSPoint point1 point2 b =
    Inr (distance latitude1 longitude1 latitude2 longitude2 False)"
  using assms
  by (simp add: distanceGPSPoint_def failIfNotAGPSPoint_ok andThen_def)

lemma haversine_one_degree_pos:
  "0 < c_atan2 (sqrt ((sin (conn_pi / 360))\<^sup>2)) (sqrt (1 - (sin (conn_pi / 360))\<^sup>2))"
proof -
  have "0 < conn_pi / 360" "conn_pi / 360 < pi"
    using conn_pi_bounds pi_ge_two by simp_all
  then have "0 < sin (conn_pi / 360)" by (rule sin_gt_zero)
  then have y: "0 < sqrt ((sin (conn_pi / 360))\<^sup>2)" by simp
  have "(sin (conn_pi / 360))\<^sup>2 \<le> 1" by (simp add: abs_square_le_1)
  then have x: "0 \<le> sqrt (1 - (sin (conn_pi / 360))\<^sup>2)" by simp
  from y x show ?thesis by (rule c_atan2_pos)
qed

lemma distance_one_degree:
  "distance 0 0 0 1 b =
     (if b then semiMajorEarthAxis else earthRadius)
     * (2 * c_atan2 (sqrt ((sin (conn_pi / 360))\<^sup>2)) (sqrt (1 - (sin (conn_pi / 360))\<^sup>2)))"
  by (simp add: distance_def Let_def calculateEarthRadius_equator radiansFromDegrees_def)

text \<open>
  C1. The overload of \<^verbatim>\<open>distance\<close> on two GPS points does not hand its radius flag to the
  degree-based \<^verbatim>\<open>distance\<close>. For the points \<open>[[0, 0, 0], [0, 0, 0]]\<close> and
  \<open>[[0, 0, 0], [1, 0, 0]]\<close> and the flag set, it returns the degree-based distance
  computed with the flag cleared, which is less than the degree-based distance with the
  flag set.
\<close>

theorem distanceGPSPoint_drops_radius_flag:
  "distanceGPSPoint [[0, 0, 0], [0, 0, 0]] [[0, 0, 0], [1, 0, 0]] True = Inr (distance 0 0 0 1 False)
   \<and> degreesFromGPSCoordinate [0, 0, 0] = Inr 0
   \<and> degreesFromGPSCoordinate [1, 0, 0] = Inr 1
   \<and> distance 0 0 0 1 False < distance 0 0 0 1 True"
proof -
  have z: "degreesFromGPSCoordinate [0, 0, 0] = Inr 0"
    and o: "degreesFromGPSCoordinate [1, 0, 0] = Inr 1"
    by (simp_all add: degreesFromGPSCoordinate_ok double_add_def double_div_def rnd_0 rnd_1)
  have d: "distanceGPSPoint [[0, 0, 0], [0, 0, 0]] [[0, 0, 0], [1, 0, 0]] True
      = Inr (distance 0 0 0 1 False)"
    by (rule distanceGPSPoint_valid) (simp_all add: z o)
  have "earthRadius < semiMajorEarthAxis"
    by (simp add: earthRadius_def semiMajorEarthAxis_def)
  then have "distance 0 0 0 1 False < distance 0 0 0 1 True"
    using haversine_one_degree_pos by (simp add: distance_one_degree)
  with z o d show ?thesis by simp
qed

section \<open>Distance in double arithmetic\<close>

text \<open>
  The radius of \<^verbatim>\<open>calculateEarthRadius\<close> is a number at every latitude: one of the
  rounded cosine and sine is at least \<open>1 / 2\<close> in absolute value, which keeps the divisor
  \<open>A + B\<close> above \<open>2 ^ 42\<close>.
\<close>

lemma sin_or_cos_half: "1 / 2 \<le> \<bar>cos x\<bar> \<or> 1 / 2 \<le> \<bar>sin x :: real\<bar>"
proof (rule ccontr)
  assume "\<not> ?thesis"
  then have c: "\<bar>cos x\<bar> < 1 / 2" and s: "\<bar>sin x\<bar> < 1 / 2" by simp_all
  have "(cos x)\<^sup>2 = \<bar>cos x\<bar> * \<bar>cos x\<bar>" by (simp add: power2_eq_square)
  also have "\<dots> \<le> (1 / 2) * (1 / 2)" using c by (intro mult_mono) simp_all
  finally have 1: "(cos x)\<^sup>2 \<le> 1 / 4" by simp
  have "(sin x)\<^sup>2 = \<bar>sin x\<bar> * \<bar>sin x\<bar>" by (simp add: power2_eq_square)
  also have "\<dots> \<le> (1 / 2) * (1 / 2)" using s by (intro mult_mono) simp_all
  finally have 2: "(sin x)\<^sup>2 \<le> 1 / 4" by simp
  from 1 2 sin_cos_squared_add [of x] show False by linarith
qed

lemma double_pow_axis:
  assumes "2 ^ 22 \<le> k" "1 / 2 \<le> \<bar>t\<bar>"
  shows "2 ^ 42 \<le> double_pow (double_mul k t) 2"
proof -
  have "2 ^ 22 * (1 / 2) \<le> k * \<bar>t\<bar>"
    using assms by (intro mult_mono) simp_all
  moreover have "\<bar>k * t\<bar> = k * \<bar>t\<bar>" using assms(1) by (simp add: abs_mult)
  ultimately have "2 powi 21 \<le> \<bar>k * t\<bar>" by simp
  then have "2 powi 21 \<le> \<bar>rnd (k * t)\<bar>" by (intro rnd_abs_ge_power) simp_all
  then have "2 ^ 21 \<le> \<bar>rnd (k * t)\<bar>" by simp
  then have "(2 ^ 21)\<^sup>2 \<le> \<bar>rnd (k * t)\<bar>\<^sup>2" by (intro power_mono) simp_all
  then have "2 powi 42 \<le> (rnd (k * t))\<^sup>2" by simp
  then have "2 powi 42 \<le> rnd ((rnd (k * t))\<^sup>2)" by (intro rnd_ge_power) simp_all
  then show ?thesis by (simp add: double_pow_def double_mul_def)
qed

lemma double_pow_nonneg: "0 \<le> double_pow x 2"
  unfolding double_pow_def by (rule rnd_nonneg) simp

lemma semiMinorEarthAxis_double_large: "2 ^ 22 \<le> semiMinorEarthAxis_double"
proof -
  have "2 powi 22 \<le> rnd semiMinorEarthAxis"
    by (rule rnd_ge_power) (simp_all add: semiMinorEarthAxis_def)
  then show ?thesis by (simp add: semiMinorEarthAxis_double_def)
qed

lemma calculateEarthRadius_double_defined:
  "\<exists>radius. calculateEarthRadius_double latitude = Some radius"
proof -
  define beta where "beta = radiansFromDegrees_double latitude"
  define A where "A = double_pow (double_mul semiMajorEarthAxis (double_cos beta)) 2"
  define B where "B = double_pow (double_mul semiMinorEarthAxis_double (double_sin beta)) 2"
  have A: "0 \<le> A" and B: "0 \<le> B" unfolding A_def B_def by (rule double_pow_nonneg)+
  have "2 ^ 42 \<le> A \<or> 2 ^ 42 \<le> B"
  proof -
    from sin_or_cos_half [of beta] show ?thesis
    proof
      assume "1 / 2 \<le> \<bar>cos beta\<bar>"
      then have "2 powi (- 1) \<le> \<bar>cos beta\<bar>" by (simp add: power_int_minus)
      then have "2 powi (- 1) \<le> \<bar>rnd (cos beta)\<bar>" by (intro rnd_abs_ge_power) simp_all
      then have "1 / 2 \<le> \<bar>double_cos beta\<bar>" by (simp add: double_cos_def power_int_minus)
      then have "2 ^ 42 \<le> A" unfolding A_def
        by (intro double_pow_axis) (simp_all add: semiMajorEarthAxis_def)
      then show ?thesis ..
    next
      assume "1 / 2 \<le> \<bar>sin beta\<bar>"
      then have "2 powi (- 1) \<le> \<bar>sin beta\<bar>" by (simp add: power_int_minus)
      then have "2 powi (- 1) \<le> \<bar>rnd (sin beta)\<bar>" by (intro rnd_abs_ge_power) simp_all
      then have "1 / 2 \<le> \<bar>double_sin beta\<bar>" by (simp add: double_sin_def power_int_minus)
      then have "2 ^ 42 \<le> B" unfolding B_def
        using semiMinorEarthAxis_double_large by (intro double_pow_axis)
      then show ?thesis ..
    qed
  qed
  with A B have "2 powi 42 \<le> A + B" by auto
  then have "2 powi 42 \<le> rnd (A + B)" by (intro rnd_ge_power) simp_all
  then have d: "0 < double_add A B" by (simp add: double_add_def)
  have "0 \<le> double_mul (double_pow semiMajorEarthAxis 2) A"
    unfolding double_mul_def using A by (intro rnd_nonneg mult_nonneg_nonneg double_pow_nonneg)
  moreover have "0 \<le> double_mul (double_pow semiMinorEarthAxis_double 2) B"
    unfolding double_mul_def using B by (intro rnd_nonneg mult_nonneg_nonneg double_pow_nonneg)
  ultimately have "0 \<le> double_add (double_mul (double_pow semiMajorEarthAxis 2) A)
      (double_mul (double_pow semiMinorEarthAxis_double 2) B)"
    unfolding double_add_def by (intro rnd_nonneg add_nonneg_nonneg)
  with d have "0 \<le> double_div (double_add (double_mul (double_pow semiMajorEarthAxis 2) A)
      (double_mul (double_pow semiMinorEarthAxis_double 2) B)) (double_add A B)"
    unfolding double_div_def by (intro rnd_nonneg divide_nonneg_pos)
  with d show ?thesis
    unfolding calculateEarthRadius_double_def Let_def
    by (simp add: double_sqrt_def flip: beta_def A_def B_def)
qed

lemma double_sqrt_0: "double_sqrt 0 = Some 0"
  by (simp add: double_sqrt_def rnd_0)

lemma double_sqrt_1: "double_sqrt 1 = Some 1"
  by (simp add: double_sqrt_def rnd_1)

lemma double_atan2_0_1: "double_atan2 0 1 = 0"
  by (simp add: double_atan2_def c_atan2_def rnd_0)

lemma distance_double_same_point: "distance_double latitude longitude latitude longitude b = Some 0"
proof -
  obtain radius where r: "(if b then calculateEarthRadius_double (double_mul 0.5 (double_add latitude latitude))
      else Some earthRadius) = Some radius"
    using calculateEarthRadius_double_defined by (cases b) auto
  have z: "double_sub x x = 0" "double_mul y 0 = 0" "double_sin 0 = 0" "double_pow 0 2 = 0"
    "double_add 0 0 = 0" "double_sub 1 0 = 1" for x y
    by (simp_all add: double_sub_def double_mul_def double_sin_def double_pow_def double_add_def
        rnd_0 rnd_1)
  show ?thesis
    unfolding distance_double_def Let_def r
    by (simp add: z double_sqrt_0 double_sqrt_1 double_atan2_0_1)
qed

lemma distance_double_commute:
  "distance_double latitude1 longitude1 latitude2 longitude2 b
   = distance_double latitude2 longitude2 latitude1 longitude1 b"
proof -
  have s: "double_pow (double_sin (double_mul 0.5 (double_sub x y))) 2
      = double_pow (double_sin (double_mul 0.5 (double_sub y x))) 2" for x y
  proof -
    have "double_sub x y = - double_sub y x"
      unfolding double_sub_def by (simp flip: rnd_minus)
    then have "double_mul 0.5 (double_sub x y) = - double_mul 0.5 (double_sub y x)"
      unfolding double_mul_def by (simp flip: rnd_minus)
    then have "double_sin (double_mul 0.5 (double_sub x y))
        = - double_sin (double_mul 0.5 (double_sub y x))"
      unfolding double_sin_def by (simp flip: rnd_minus)
    then show ?thesis by (simp add: double_pow_def)
  qed
  have c: "double_mul x y = double_mul y x" "double_add x y = double_add y x" for x y
    by (simp_all add: double_mul_def double_add_def mult.commute add.commute)
  show ?thesis
    unfolding distance_double_def Let_def
    by (simp only: s [of "radiansFromDegrees_double latitude2"]
        s [of "radiansFromDegrees_double longitude2"]
        c(1) [of "double_cos (radiansFromDegrees_double latitude2)"]
        c(2) [of latitude2])
qed

text \<open>
  Sine and cosine lie within \<open>\<bar>x\<bar> ^ n / n!\<close> of their Taylor polynomials of \<open>n\<close> terms,
  which decides the rounding of \<^verbatim>\<open>sin\<close> and \<^verbatim>\<open>cos\<close> at a given double.
\<close>

lemma sin_taylor:
  shows "(\<Sum>m<n. sin_coeff m * x ^ m) - \<bar>x\<bar> ^ n / fact n \<le> sin x"
    and "sin x \<le> (\<Sum>m<n. sin_coeff m * x ^ m) + \<bar>x\<bar> ^ n / fact n"
proof -
  have "\<bar>sin x - (\<Sum>m<n. sin_coeff m * x ^ m)\<bar> \<le> \<bar>x\<bar> ^ n / fact n"
    using Maclaurin_sin_bound [of x n] by (simp add: divide_inverse mult.commute)
  then show "(\<Sum>m<n. sin_coeff m * x ^ m) - \<bar>x\<bar> ^ n / fact n \<le> sin x"
    and "sin x \<le> (\<Sum>m<n. sin_coeff m * x ^ m) + \<bar>x\<bar> ^ n / fact n"
    by linarith+
qed

lemma cos_taylor:
  shows "(\<Sum>m<n. cos_coeff m * x ^ m) - \<bar>x\<bar> ^ n / fact n \<le> cos x"
    and "cos x \<le> (\<Sum>m<n. cos_coeff m * x ^ m) + \<bar>x\<bar> ^ n / fact n"
proof -
  obtain t where t: "cos x = (\<Sum>m<n. cos_coeff m * x ^ m)
      + (cos (t + 1 / 2 * real n * pi) / fact n) * x ^ n"
    using Maclaurin_cos_expansion [of x n] by blast
  have "\<bar>(cos (t + 1 / 2 * real n * pi) / fact n) * x ^ n\<bar>
      = \<bar>cos (t + 1 / 2 * real n * pi)\<bar> * (\<bar>x\<bar> ^ n / fact n)"
    by (simp add: abs_mult power_abs)
  also have "\<dots> \<le> 1 * (\<bar>x\<bar> ^ n / fact n)"
    by (intro mult_right_mono) simp_all
  finally have "\<bar>cos x - (\<Sum>m<n. cos_coeff m * x ^ m)\<bar> \<le> \<bar>x\<bar> ^ n / fact n"
    using t by simp
  then show "(\<Sum>m<n. cos_coeff m * x ^ m) - \<bar>x\<bar> ^ n / fact n \<le> cos x"
    and "cos x \<le> (\<Sum>m<n. cos_coeff m * x ^ m) + \<bar>x\<bar> ^ n / fact n"
    by linarith+
qed

lemma sin_polynomial_14:
  "(\<Sum>m<14. sin_coeff m * x ^ m)
   = x - x ^ 3 / 6 + x ^ 5 / 120 - x ^ 7 / 5040 + x ^ 9 / 362880 - x ^ 11 / 39916800
     + x ^ 13 / 6227020800"
  by (simp add: lessThan_nat_numeral lessThan_Suc sin_coeff_def fact_numeral)

lemma cos_polynomial_14:
  "(\<Sum>m<14. cos_coeff m * x ^ m)
   = 1 - x ^ 2 / 2 + x ^ 4 / 24 - x ^ 6 / 720 + x ^ 8 / 40320 - x ^ 10 / 3628800
     + x ^ 12 / 479001600"
  by (simp add: lessThan_nat_numeral lessThan_Suc cos_coeff_def fact_numeral)

lemma double_sin_12:
  "double_sin (3772926801069945 / 18014398509481984) = 3745404053159693 / 18014398509481984"
proof -
  define x :: real where "x = (3772926801069945 / 18014398509481984)"
  define T :: real where "T = x - x ^ 3 / 6 + x ^ 5 / 120 - x ^ 7 / 5040 + x ^ 9 / 362880 - x ^ 11 / 39916800 + x ^ 13 / 6227020800"
  define err :: real where "err = x ^ 14 / 87178291200"
  have x: "\<bar>x\<bar> = x" by (simp add: x_def)
  have f: "fact 14 = (87178291200 :: real)" by (simp add: fact_numeral)
  have lo: "T - err \<le> sin x"
    using sin_taylor(1) [where n = 14 and x = x] unfolding sin_polynomial_14 x f T_def err_def .
  have hi: "sin x \<le> T + err"
    using sin_taylor(2) [where n = 14 and x = x] unfolding sin_polynomial_14 x f T_def err_def .
  have "rnd (sin x) = real_of_int 7490808106319386 * 2 powi (- 3 - 52)"
  proof (rule rnd_between [OF _ _ lo hi])
    show "2 powi (- 3) \<le> T - err" by (simp add: T_def err_def x_def power_divide)
    show "T + err < 2 powi (- 3 + 1)" by (simp add: T_def err_def x_def power_divide)
    show "real_of_int 7490808106319386 - 1 / 2 < (T - err) / 2 powi (- 3 - 52)"
      by (simp add: T_def err_def x_def power_divide)
    show "(T + err) / 2 powi (- 3 - 52) < real_of_int 7490808106319386 + 1 / 2"
      by (simp add: T_def err_def x_def power_divide)
  qed simp_all
  then show ?thesis by (simp add: double_sin_def x_def)
qed

lemma double_cos_12:
  "double_cos (3772926801069945 / 18014398509481984) = 2202592585089365 / 2251799813685248"
proof -
  define x :: real where "x = (3772926801069945 / 18014398509481984)"
  define T :: real where "T = 1 - x ^ 2 / 2 + x ^ 4 / 24 - x ^ 6 / 720 + x ^ 8 / 40320 - x ^ 10 / 3628800 + x ^ 12 / 479001600"
  define err :: real where "err = x ^ 14 / 87178291200"
  have x: "\<bar>x\<bar> = x" by (simp add: x_def)
  have f: "fact 14 = (87178291200 :: real)" by (simp add: fact_numeral)
  have lo: "T - err \<le> cos x"
    using cos_taylor(1) [where n = 14 and x = x] unfolding cos_polynomial_14 x f T_def err_def .
  have hi: "cos x \<le> T + err"
    using cos_taylor(2) [where n = 14 and x = x] unfolding cos_polynomial_14 x f T_def err_def .
  have "rnd (cos x) = real_of_int 8810370340357460 * 2 powi (- 1 - 52)"
  proof (rule rnd_between [OF _ _ lo hi])
    show "2 powi (- 1) \<le> T - err" by (simp add: T_def err_def x_def power_divide)
    show "T + err < 2 powi (- 1 + 1)" by (simp add: T_def err_def x_def power_divide)
    show "real_of_int 8810370340357460 - 1 / 2 < (T - err) / 2 powi (- 1 - 52)"
      by (simp add: T_def err_def x_def power_divide)
    show "(T + err) / 2 powi (- 1 - 52) < real_of_int 8810370340357460 + 1 / 2"
      by (simp add: T_def err_def x_def power_divide)
  qed simp_all
  then show ?thesis by (simp add: double_cos_def x_def)
qed

lemma sin_polynomial_24:
  "(\<Sum>m<24. sin_coeff m * x ^ m)
   = x - x ^ 3 / 6 + x ^ 5 / 120 - x ^ 7 / 5040 + x ^ 9 / 362880 - x ^ 11 / 39916800 + x ^ 13 / 6227020800 - x ^ 15 / 1307674368000 + x ^ 17 / 355687428096000 - x ^ 19 / 121645100408832000 + x ^ 21 / 51090942171709440000 - x ^ 23 / 25852016738884976640000"
  by (simp add: lessThan_nat_numeral lessThan_Suc sin_coeff_def fact_numeral)

lemma double_sin_quarter_turn: "double_sin (7074237752006147 / 4503599627370496) = 1"
proof -
  define x :: real where "x = (7074237752006147 / 4503599627370496)"
  define T :: real where "T = x - x ^ 3 / 6 + x ^ 5 / 120 - x ^ 7 / 5040 + x ^ 9 / 362880 - x ^ 11 / 39916800 + x ^ 13 / 6227020800 - x ^ 15 / 1307674368000 + x ^ 17 / 355687428096000 - x ^ 19 / 121645100408832000 + x ^ 21 / 51090942171709440000 - x ^ 23 / 25852016738884976640000"
  define err :: real where "err = x ^ 24 / 620448401733239439360000"
  have x: "\<bar>x\<bar> = x" by (simp add: x_def)
  have f: "fact 24 = (620448401733239439360000 :: real)" by (simp add: fact_numeral)
  have "T - err \<le> sin x"
    using sin_taylor(1) [where n = 24 and x = x] unfolding sin_polynomial_24 x f T_def err_def .
  moreover have "1 - 2 powi (- 54) < T - err"
    by (simp add: T_def err_def x_def power_divide power_int_minus)
  ultimately have "1 - 2 powi (- 54) < sin x" by linarith
  then have "rnd (sin x) = 1" by (rule rnd_near_one) simp
  then show ?thesis by (simp add: double_sin_def x_def)
qed

text \<open>
  The operations of \<^verbatim>\<open>distance\<close> between \<open>(12, 0)\<close> and \<open>(-12, 180)\<close>, one rounding at
  a time.
\<close>

lemma conn_pi_double_value: "conn_pi_double = (7074237752006147 / 2251799813685248)"
proof -
  have "rnd (3.1415926535798932384626433) = real_of_int (round_even ((3.1415926535798932384626433) / 2 powi (1 - 52))) * 2 powi (1 - 52)"
    by (rule rnd_eq) simp_all
  moreover have "round_even ((3.1415926535798932384626433) / 2 powi (1 - 52)) = 7074237752006147"
    by (simp add: round_even_def)
  ultimately show ?thesis by (simp add: conn_pi_double_def conn_pi_def)
qed

lemma twelve_times_pi: "double_mul 12 (7074237752006147 / 2251799813685248) = (2652839157002305 / 70368744177664)"
proof -
  have "rnd (12 * (7074237752006147 / 2251799813685248)) = real_of_int (round_even ((12 * (7074237752006147 / 2251799813685248)) / 2 powi (5 - 52))) * 2 powi (5 - 52)"
    by (rule rnd_eq) simp_all
  moreover have "round_even ((12 * (7074237752006147 / 2251799813685248)) / 2 powi (5 - 52)) = 5305678314004610"
    by (simp add: round_even_def)
  ultimately show ?thesis by (simp add: double_mul_def)
qed

lemma twelve_degrees: "double_div (2652839157002305 / 70368744177664) 180 = (3772926801069945 / 18014398509481984)"
proof -
  have "rnd ((2652839157002305 / 70368744177664) / 180) = real_of_int (round_even (((2652839157002305 / 70368744177664) / 180) / 2 powi (- 3 - 52))) * 2 powi (- 3 - 52)"
    by (rule rnd_eq) simp_all
  moreover have "round_even (((2652839157002305 / 70368744177664) / 180) / 2 powi (- 3 - 52)) = 7545853602139890"
    by (simp add: round_even_def)
  ultimately show ?thesis by (simp add: double_div_def)
qed

lemma half_turn_times_pi: "double_mul 180 (7074237752006147 / 2251799813685248) = (2487036709689661 / 4398046511104)"
proof -
  have "rnd (180 * (7074237752006147 / 2251799813685248)) = real_of_int (round_even ((180 * (7074237752006147 / 2251799813685248)) / 2 powi (9 - 52))) * 2 powi (9 - 52)"
    by (rule rnd_eq) simp_all
  moreover have "round_even ((180 * (7074237752006147 / 2251799813685248)) / 2 powi (9 - 52)) = 4974073419379322"
    by (simp add: round_even_def)
  ultimately show ?thesis by (simp add: double_mul_def)
qed

lemma half_turn: "double_div (2487036709689661 / 4398046511104) 180 = (7074237752006147 / 2251799813685248)"
proof -
  have "rnd ((2487036709689661 / 4398046511104) / 180) = real_of_int (round_even (((2487036709689661 / 4398046511104) / 180) / 2 powi (1 - 52))) * 2 powi (1 - 52)"
    by (rule rnd_eq) simp_all
  moreover have "round_even (((2487036709689661 / 4398046511104) / 180) / 2 powi (1 - 52)) = 7074237752006147"
    by (simp add: round_even_def)
  ultimately show ?thesis by (simp add: double_div_def)
qed

lemma latitude_difference: "double_sub (- (3772926801069945 / 18014398509481984)) (3772926801069945 / 18014398509481984) = (- (3772926801069945 / 9007199254740992))"
proof -
  have "rnd ((- (3772926801069945 / 18014398509481984)) - (3772926801069945 / 18014398509481984)) = real_of_int (round_even (((- (3772926801069945 / 18014398509481984)) - (3772926801069945 / 18014398509481984)) / 2 powi (- 2 - 52))) * 2 powi (- 2 - 52)"
    by (rule rnd_eq) simp_all
  moreover have "round_even (((- (3772926801069945 / 18014398509481984)) - (3772926801069945 / 18014398509481984)) / 2 powi (- 2 - 52)) = - 7545853602139890"
    by (simp add: round_even_def)
  ultimately show ?thesis by (simp add: double_sub_def)
qed

lemma latitude_difference_half: "double_mul 0.5 (- (3772926801069945 / 9007199254740992)) = (- (3772926801069945 / 18014398509481984))"
proof -
  have "rnd (0.5 * (- (3772926801069945 / 9007199254740992))) = real_of_int (round_even ((0.5 * (- (3772926801069945 / 9007199254740992))) / 2 powi (- 3 - 52))) * 2 powi (- 3 - 52)"
    by (rule rnd_eq) simp_all
  moreover have "round_even ((0.5 * (- (3772926801069945 / 9007199254740992))) / 2 powi (- 3 - 52)) = - 7545853602139890"
    by (simp add: round_even_def)
  ultimately show ?thesis by (simp add: double_mul_def)
qed

lemma longitude_difference: "double_sub (7074237752006147 / 2251799813685248) 0 = (7074237752006147 / 2251799813685248)"
proof -
  have "rnd ((7074237752006147 / 2251799813685248) - 0) = real_of_int (round_even (((7074237752006147 / 2251799813685248) - 0) / 2 powi (1 - 52))) * 2 powi (1 - 52)"
    by (rule rnd_eq) simp_all
  moreover have "round_even (((7074237752006147 / 2251799813685248) - 0) / 2 powi (1 - 52)) = 7074237752006147"
    by (simp add: round_even_def)
  ultimately show ?thesis by (simp add: double_sub_def)
qed

lemma longitude_difference_half: "double_mul 0.5 (7074237752006147 / 2251799813685248) = (7074237752006147 / 4503599627370496)"
proof -
  have "rnd (0.5 * (7074237752006147 / 2251799813685248)) = real_of_int (round_even ((0.5 * (7074237752006147 / 2251799813685248)) / 2 powi (0 - 52))) * 2 powi (0 - 52)"
    by (rule rnd_eq) simp_all
  moreover have "round_even ((0.5 * (7074237752006147 / 2251799813685248)) / 2 powi (0 - 52)) = 7074237752006147"
    by (simp add: round_even_def)
  ultimately show ?thesis by (simp add: double_mul_def)
qed

lemma sine_squared: "double_pow (- (3745404053159693 / 18014398509481984)) 2 = (3114853157942811 / 72057594037927936)"
proof -
  have "rnd ((3745404053159693 / 18014398509481984) * (3745404053159693 / 18014398509481984)) = real_of_int (round_even (((3745404053159693 / 18014398509481984) * (3745404053159693 / 18014398509481984)) / 2 powi (- 5 - 52))) * 2 powi (- 5 - 52)"
    by (rule rnd_eq) simp_all
  moreover have "round_even (((3745404053159693 / 18014398509481984) * (3745404053159693 / 18014398509481984)) / 2 powi (- 5 - 52)) = 6229706315885622"
    by (simp add: round_even_def)
  ultimately show ?thesis by (simp add: double_pow_def power2_eq_square)
qed

lemma cosine_times_cosine: "double_mul (2202592585089365 / 2251799813685248) (2202592585089365 / 2251799813685248) = (4308921304999071 / 4503599627370496)"
proof -
  have "rnd ((2202592585089365 / 2251799813685248) * (2202592585089365 / 2251799813685248)) = real_of_int (round_even (((2202592585089365 / 2251799813685248) * (2202592585089365 / 2251799813685248)) / 2 powi (- 1 - 52))) * 2 powi (- 1 - 52)"
    by (rule rnd_eq) simp_all
  moreover have "round_even (((2202592585089365 / 2251799813685248) * (2202592585089365 / 2251799813685248)) / 2 powi (- 1 - 52)) = 8617842609998142"
    by (simp add: round_even_def)
  ultimately show ?thesis by (simp add: double_mul_def)
qed

lemma cosines_times_one: "double_mul (4308921304999071 / 4503599627370496) 1 = (4308921304999071 / 4503599627370496)"
proof -
  have "rnd ((4308921304999071 / 4503599627370496) * 1) = real_of_int (round_even (((4308921304999071 / 4503599627370496) * 1) / 2 powi (- 1 - 52))) * 2 powi (- 1 - 52)"
    by (rule rnd_eq) simp_all
  moreover have "round_even (((4308921304999071 / 4503599627370496) * 1) / 2 powi (- 1 - 52)) = 8617842609998142"
    by (simp add: round_even_def)
  ultimately show ?thesis by (simp add: double_mul_def)
qed

lemma haversine_above_one: "double_add (3114853157942811 / 72057594037927936) (4308921304999071 / 4503599627370496) = (4503599627370497 / 4503599627370496)"
proof -
  have "rnd ((3114853157942811 / 72057594037927936) + (4308921304999071 / 4503599627370496)) = real_of_int (round_even (((3114853157942811 / 72057594037927936) + (4308921304999071 / 4503599627370496)) / 2 powi (0 - 52))) * 2 powi (0 - 52)"
    by (rule rnd_eq) simp_all
  moreover have "round_even (((3114853157942811 / 72057594037927936) + (4308921304999071 / 4503599627370496)) / 2 powi (0 - 52)) = 4503599627370497"
    by (simp add: round_even_def)
  ultimately show ?thesis by (simp add: double_add_def)
qed

lemma one_minus_haversine: "double_sub 1 (4503599627370497 / 4503599627370496) = (- (1 / 4503599627370496))"
proof -
  have "rnd (1 - (4503599627370497 / 4503599627370496)) = real_of_int (round_even ((1 - (4503599627370497 / 4503599627370496)) / 2 powi (- 52 - 52))) * 2 powi (- 52 - 52)"
    by (rule rnd_eq) simp_all
  moreover have "round_even ((1 - (4503599627370497 / 4503599627370496)) / 2 powi (- 52 - 52)) = - 4503599627370496"
    by (simp add: round_even_def)
  ultimately show ?thesis by (simp add: double_sub_def)
qed

lemma radiansFromDegrees_double_minus:
  "radiansFromDegrees_double (- x) = - radiansFromDegrees_double x"
  by (simp add: radiansFromDegrees_double_def double_mul_def double_div_def rnd_minus)

lemma radiansFromDegrees_double_0: "radiansFromDegrees_double 0 = 0"
  by (simp add: radiansFromDegrees_double_def double_mul_def double_div_def rnd_0)

lemma radiansFromDegrees_double_12: "radiansFromDegrees_double 12 = (3772926801069945 / 18014398509481984)"
  unfolding radiansFromDegrees_double_def
  by (simp only: conn_pi_double_value twelve_times_pi twelve_degrees)

lemma radiansFromDegrees_double_180: "radiansFromDegrees_double 180 = (7074237752006147 / 2251799813685248)"
  unfolding radiansFromDegrees_double_def
  by (simp only: conn_pi_double_value half_turn_times_pi half_turn)

lemma double_sin_minus: "double_sin (- x) = - double_sin x"
  by (simp add: double_sin_def rnd_minus)

lemma double_cos_minus: "double_cos (- x) = double_cos x"
  by (simp add: double_cos_def)

lemma double_pow_1: "double_pow 1 n = 1"
  by (simp add: double_pow_def rnd_1)

lemma haversine_of_antipodes:
  "double_add
     (double_pow (double_sin (double_mul 0.5 (double_sub (- (3772926801069945 / 18014398509481984)) (3772926801069945 / 18014398509481984)))) 2)
     (double_mul (double_mul (double_cos (3772926801069945 / 18014398509481984)) (double_cos (- (3772926801069945 / 18014398509481984))))
        (double_pow (double_sin (double_mul 0.5 (double_sub (7074237752006147 / 2251799813685248) 0))) 2))
   = (4503599627370497 / 4503599627370496)"
  by (simp only: latitude_difference latitude_difference_half double_sin_minus double_sin_12
      sine_squared double_cos_minus double_cos_12 cosine_times_cosine longitude_difference
      longitude_difference_half double_sin_quarter_turn double_pow_1 cosines_times_one
      haversine_above_one)

lemma distance_double_antipodes: "distance_double 12 0 (- 12) 180 b = None"
proof -
  have "double_sqrt (double_sub 1 (4503599627370497 / 4503599627370496)) = None"
    by (simp add: one_minus_haversine double_sqrt_def)
  then show ?thesis
    unfolding distance_double_def Let_def radiansFromDegrees_double_minus
      radiansFromDegrees_double_12 radiansFromDegrees_double_0 radiansFromDegrees_double_180
      haversine_of_antipodes
    by (simp split: option.splits)
qed

lemma double_cos_0: "double_cos 0 = 1"
  by (simp add: double_cos_def rnd_1)

lemma distance_double_half_equator: "distance_double 0 0 0 180 False \<noteq> None"
proof -
  have z: "double_sub 0 0 = 0" "double_mul 0.5 0 = 0" "double_sin 0 = 0" "double_pow 0 2 = 0"
    "double_mul 1 1 = 1" "double_add 0 1 = 1" "double_sub 1 1 = 0"
    by (simp_all add: double_sub_def double_mul_def double_sin_def double_pow_def double_add_def
        rnd_0 rnd_1)
  have "double_add
     (double_pow (double_sin (double_mul 0.5 (double_sub 0 0))) 2)
     (double_mul (double_mul (double_cos 0) (double_cos 0))
        (double_pow (double_sin (double_mul 0.5 (double_sub (7074237752006147 / 2251799813685248) 0))) 2)) = 1"
    by (simp only: z double_cos_0 longitude_difference longitude_difference_half
        double_sin_quarter_turn double_pow_1)
  then show ?thesis
    unfolding distance_double_def Let_def radiansFromDegrees_double_0
      radiansFromDegrees_double_180
    by (simp add: z double_sqrt_0 double_sqrt_1)
qed

text \<open>
  Some bound on the coordinates is needed: at \<open>10 ^ 308\<close> degrees the product with the
  constant \<^verbatim>\<open>pi\<close> in \<^verbatim>\<open>radiansFromDegrees\<close> is beyond the largest double. Below
  \<open>10 ^ 300\<close> degrees it stays far below.
\<close>

lemma radians_beyond_largest_double: "largest_double < 10 ^ 308 * conn_pi_double"
  by (simp add: largest_double_def conn_pi_double_value)

lemma radians_below_largest_double:
  assumes "\<bar>degrees\<bar> \<le> 10 ^ 300"
  shows "\<bar>degrees * conn_pi_double\<bar> < largest_double"
proof -
  have "\<bar>degrees * conn_pi_double\<bar> = \<bar>degrees\<bar> * conn_pi_double"
    by (simp add: abs_mult conn_pi_double_value)
  also have "\<dots> \<le> 10 ^ 300 * conn_pi_double"
    using assms by (intro mult_right_mono) (simp_all add: conn_pi_double_value)
  also have "\<dots> < largest_double"
    by (simp add: largest_double_def conn_pi_double_value)
  finally show ?thesis .
qed

text \<open>
  C6. For two points \<open>A\<close> and \<open>B\<close> with coordinates bounded by \<open>10 ^ 300\<close>, which keeps
  every intermediate result below the largest double, and with either radius: in double
  arithmetic the distance from \<open>A\<close> to itself is exactly \<open>0\<close>; exchanging \<open>A\<close> and \<open>B\<close>
  does not change what \<^verbatim>\<open>distance\<close> computes, a number or NaN; so
  \<^verbatim>\<open>distance(A, B) == distance(B, A)\<close> holds whenever the distance is a number.
\<close>

theorem distance_double_zero_and_symmetric:
  assumes "\<bar>latitude1\<bar> \<le> 10 ^ 300" "\<bar>longitude1\<bar> \<le> 10 ^ 300"
    and "\<bar>latitude2\<bar> \<le> 10 ^ 300" "\<bar>longitude2\<bar> \<le> 10 ^ 300"
  shows "distance_double latitude1 longitude1 latitude1 longitude1 b = Some 0
    \<and> distance_double latitude1 longitude1 latitude2 longitude2 b
        = distance_double latitude2 longitude2 latitude1 longitude1 b
    \<and> (distance_double latitude1 longitude1 latitude2 longitude2 b \<noteq> None \<longrightarrow>
         double_equal (distance_double latitude1 longitude1 latitude2 longitude2 b)
           (distance_double latitude2 longitude2 latitude1 longitude1 b))"
proof (intro conjI impI)
  show "distance_double latitude1 longitude1 latitude1 longitude1 b = Some 0"
    by (rule distance_double_same_point)
  show c: "distance_double latitude1 longitude1 latitude2 longitude2 b
      = distance_double latitude2 longitude2 latitude1 longitude1 b"
    by (rule distance_double_commute)
  assume "distance_double latitude1 longitude1 latitude2 longitude2 b \<noteq> None"
  then show "double_equal (distance_double latitude1 longitude1 latitude2 longitude2 b)
      (distance_double latitude2 longitude2 latitude1 longitude1 b)"
    unfolding c [symmetric] by (auto simp: double_equal_def)
qed

text \<open>
  The theorem at the points \<open>(0, 0)\<close> and \<open>(0, 180)\<close>, half the equator apart, with the mean
  radius.
\<close>

theorem distance_double_zero_and_symmetric_witness:
  "\<bar>0 :: real\<bar> \<le> 10 ^ 300 \<and> \<bar>180 :: real\<bar> \<le> 10 ^ 300
   \<and> distance_double 0 0 0 180 False \<noteq> None
   \<and> distance_double 0 0 0 0 False = Some 0
   \<and> distance_double 0 0 0 180 False = distance_double 0 180 0 0 False
   \<and> double_equal (distance_double 0 0 0 180 False) (distance_double 0 180 0 0 False)"
proof -
  have 1: "\<bar>0 :: real\<bar> \<le> 10 ^ 300" and 2: "\<bar>180 :: real\<bar> \<le> 10 ^ 300" by simp_all
  note t = distance_double_zero_and_symmetric [OF 1 1 1 2, where b = False]
  from t have 3: "distance_double 0 0 0 0 False = Some 0" by blast
  from t have 4: "distance_double 0 0 0 180 False = distance_double 0 180 0 0 False" by blast
  from t distance_double_half_equator
  have 5: "double_equal (distance_double 0 0 0 180 False) (distance_double 0 180 0 0 False)"
    by blast
  from 1 2 3 4 5 distance_double_half_equator show ?thesis by blast
qed

text \<open>
  C6, at two antipodes. Between \<open>(12, 0)\<close> and \<open>(-12, 180)\<close> the sum \<open>a\<close> of the Haversine
  formula rounds to \<open>1 + 2 powi (- 52)\<close>, so \<^verbatim>\<open>sqrt(1. - a)\<close> is NaN and so is the distance,
  in both directions: \<^verbatim>\<open>distance(A, B) == distance(B, A)\<close> is false.
\<close>

theorem distance_double_antipodes_not_equal:
  "distance_double 12 0 (- 12) 180 False = None
   \<and> distance_double (- 12) 180 12 0 False = None
   \<and> \<not> double_equal (distance_double 12 0 (- 12) 180 False)
         (distance_double (- 12) 180 12 0 False)"
proof -
  have 1: "distance_double 12 0 (- 12) 180 False = None" by (rule distance_double_antipodes)
  then have 2: "distance_double (- 12) 180 12 0 False = None"
    by (simp only: distance_double_commute [of "- 12" 180 12 0])
  from 1 2 show ?thesis by (simp add: double_equal_def)
qed

section \<open>Track generators: what a call appends\<close>

lemma track_anchored:
  "points \<noteq> [] \<Longrightarrow> \<forall>p \<in> set points. length p = 2 \<Longrightarrow> anchored points"
proof -
  assume a: "points \<noteq> []" and b: "\<forall>p \<in> set points. length p = 2"
  from a have "points ! (length points - 1) \<in> set points" by simp
  with a b show ?thesis by (simp add: anchored_def)
qed

lemma size_t_succ:
  fixes i n :: size_t
  assumes "i \<le> n" "n \<noteq> - 1"
  shows "unat (i + 1) = Suc (unat i)"
proof -
  have "i \<noteq> - 1" using assms
    by (metis word_order.extremum_unique)
  then have "1 + i \<noteq> 0"
    by (metis add.commute add_eq_0_iff)
  then show ?thesis by (simp add: unatSuc add.commute)
qed


lemma unat_size_max: "unat (- 1 :: size_t) = 18446744073709551615"
  by (simp add: unsigned_minus_1_eq_mask mask_eq_exp_minus_1)

lemma unat_size_t_le: "unat (c :: size_t) \<le> 18446744073709551615"
  using unsigned_less [of c, where 'a = nat] by simp

subsection \<open>What an outcome that grows the track tells\<close>

lemma grows_Returns:
  "grows capacity m points r \<Longrightarrow> r = Returns points' \<Longrightarrow>
   prefix points points' \<and> length points' = length points + m"
  by (auto simp: grows_def)

lemma grows_Throws:
  "grows capacity m points r \<Longrightarrow> r = Throws points' \<Longrightarrow>
   prefix points points' \<and> length points' < length points + m
   \<and> unat capacity < length points + m"
  by (auto simp: grows_def)

lemma grows_fits:
  "grows capacity m points r \<Longrightarrow> length points + m \<le> unat capacity \<Longrightarrow>
   \<exists>points'. r = Returns points'"
  by (cases r) (auto simp: grows_def)

lemma grows_anchored:
  assumes "anchored points" "grows capacity m points (Returns points')"
  shows "anchored points'"
proof -
  from assms(2) obtain added where p: "points' = points @ added"
    and t: "\<forall>p \<in> set added. length p = 2"
    by (auto simp: grows_def)
  show ?thesis
  proof (cases "added = []")
    case True
    with p assms(1) show ?thesis by simp
  next
    case False
    then have "(points @ added) ! (length (points @ added) - 1) = last added"
      by (metis append_is_Nil_conv last_appendR last_conv_nth)
    moreover from False t have "length (last added) = 2" by simp
    ultimately show ?thesis using False by (simp add: anchored_def p)
  qed
qed

lemma grows_step:
  assumes g: "grows capacity m (points @ [p]) r" and p: "length p = 2"
  shows "grows capacity (Suc m) points r"
proof (cases r)
  case (Returns points')
  with g obtain added where "points' = (points @ [p]) @ added" "length added = m"
    "\<forall>q \<in> set added. length q = 2"
    by (auto simp: grows_def)
  with p have "points' = points @ (p # added) \<and> length (p # added) = Suc m
      \<and> (\<forall>q \<in> set (p # added). length q = 2)"
    by simp
  then show ?thesis unfolding grows_def Returns by (simp only: outcome.case) blast
next
  case (Throws points')
  with g obtain added where "points' = (points @ [p]) @ added" "length added < m"
    "\<forall>q \<in> set added. length q = 2" and c: "unat capacity < length (points @ [p]) + m"
    by (auto simp: grows_def)
  with p have "points' = points @ (p # added) \<and> length (p # added) < Suc m
      \<and> (\<forall>q \<in> set (p # added). length q = 2)"
    by simp
  moreover from c have "unat capacity < length points + Suc m" by simp
  ultimately show ?thesis unfolding grows_def Throws by (simp only: outcome.case) blast
next
  case Undefined_behaviour
  with g show ?thesis by (simp add: grows_def)
qed

lemma grows_continue_with:
  assumes r: "grows capacity m points r" and a: "anchored points"
    and f: "\<And>ps. anchored ps \<Longrightarrow> length ps = length points + m \<Longrightarrow> grows capacity k ps (f ps)"
  shows "grows capacity (m + k) points (continue_with r f)"
proof (cases r)
  case (Returns ps)
  with r obtain added where 1: "ps = points @ added" and 2: "length added = m"
    and 3: "\<forall>p \<in> set added. length p = 2"
    by (auto simp: grows_def)
  from a r have "anchored ps" unfolding Returns by (rule grows_anchored)
  moreover from 1 2 have "length ps = length points + m" by simp
  ultimately have g: "grows capacity k ps (f ps)" by (rule f)
  have c: "continue_with r f = f ps" by (simp add: continue_with_def Returns)
  show ?thesis
  proof (cases "f ps")
    case (Returns ps')
    with g obtain added' where "ps' = ps @ added'" "length added' = k"
      "\<forall>p \<in> set added'. length p = 2"
      by (auto simp: grows_def)
    with 1 2 3 have "ps' = points @ (added @ added') \<and> length (added @ added') = m + k
        \<and> (\<forall>p \<in> set (added @ added'). length p = 2)"
      by auto
    then show ?thesis unfolding grows_def c Returns by (simp only: outcome.case) blast
  next
    case (Throws ps')
    with g obtain added' where "ps' = ps @ added'" "length added' < k"
      "\<forall>p \<in> set added'. length p = 2" and d: "unat capacity < length ps + k"
      by (auto simp: grows_def)
    with 1 2 3 have "ps' = points @ (added @ added') \<and> length (added @ added') < m + k
        \<and> (\<forall>p \<in> set (added @ added'). length p = 2)"
      by auto
    moreover from d 1 2 have "unat capacity < length points + (m + k)" by simp
    ultimately show ?thesis unfolding grows_def c Throws by (simp only: outcome.case) blast
  next
    case Undefined_behaviour
    with g show ?thesis by (simp add: grows_def)
  qed
next
  case (Throws ps)
  with r obtain added where "ps = points @ added" "length added < m"
    "\<forall>p \<in> set added. length p = 2" and d: "unat capacity < length points + m"
    by (auto simp: grows_def)
  then have "ps = points @ added \<and> length added < m + k \<and> (\<forall>p \<in> set added. length p = 2)"
    by simp
  moreover from d have "unat capacity < length points + (m + k)" by simp
  moreover have "continue_with r f = Throws ps" by (simp add: continue_with_def Throws)
  ultimately show ?thesis unfolding grows_def by (simp only: outcome.case) blast
next
  case Undefined_behaviour
  with r show ?thesis by (simp add: grows_def)
qed

lemma continue_with_defined:
  "continue_with r f \<noteq> Undefined_behaviour \<Longrightarrow> r \<noteq> Undefined_behaviour"
  by (auto simp: continue_with_def)

subsection \<open>The loops of line and spiral\<close>

lemma line_loop_grows:
  "numberOfPoints \<noteq> - 1 \<Longrightarrow>
   grows capacity (Suc (unat numberOfPoints) - unat i) points
     (line_loop capacity i numberOfPoints xOffset yOffset xLength yLength points)"
proof (induction capacity i numberOfPoints xOffset yOffset xLength yLength points
    rule: line_loop.induct)
  case (1 capacity i numberOfPoints xOffset yOffset xLength yLength points)
  let ?p = "[xOffset + real (unat i) / real (unat numberOfPoints) * xLength,
             yOffset + real (unat i) / real (unat numberOfPoints) * yLength]"
  show ?case
  proof (cases "i \<le> numberOfPoints")
    case False
    then have "Suc (unat numberOfPoints) - unat i = 0" by (simp add: word_le_nat_alt)
    moreover have "line_loop capacity i numberOfPoints xOffset yOffset xLength yLength points
        = Returns points"
      using False by (subst line_loop.simps) simp
    ultimately show ?thesis by (simp add: grows_def)
  next
    case le: True
    then have u: "unat i \<le> unat numberOfPoints" by (simp add: word_le_nat_alt)
    have s: "unat (i + 1) = Suc (unat i)" using le "1.prems" by (rule size_t_succ)
    from u have m: "Suc (unat numberOfPoints) - unat i
        = Suc (Suc (unat numberOfPoints) - unat (i + 1))"
      by (simp add: s)
    show ?thesis
    proof (cases "length points < unat capacity")
      case True
      have e: "line_loop capacity i numberOfPoints xOffset yOffset xLength yLength points
          = line_loop capacity (i + 1) numberOfPoints xOffset yOffset xLength yLength
              (points @ [?p])"
        by (subst line_loop.simps) (simp only: le True if_True Let_def)
      have "grows capacity (Suc (unat numberOfPoints) - unat (i + 1)) (points @ [?p])
          (line_loop capacity (i + 1) numberOfPoints xOffset yOffset xLength yLength
              (points @ [?p]))"
        using "1.IH" [OF le refl True "1.prems"] .
      then show ?thesis unfolding e m by (rule grows_step) simp
    next
      case False
      have "line_loop capacity i numberOfPoints xOffset yOffset xLength yLength points
          = Throws points"
        by (subst line_loop.simps) (simp only: le False if_True if_False Let_def)
      moreover from False m
      have "unat capacity < length points + (Suc (unat numberOfPoints) - unat i)" by simp
      ultimately show ?thesis using m by (simp add: grows_def)
    qed
  qed
qed

lemma line_loop_size_max:
  "\<exists>added. line_loop capacity i (- 1) xOffset yOffset xLength yLength points
       = Throws (points @ added)
     \<and> length (points @ added) = max (length points) (unat capacity)
     \<and> (\<forall>p \<in> set added. length p = 2)"
proof (induction capacity i "- 1 :: size_t" xOffset yOffset xLength yLength points
    rule: line_loop.induct)
  case (1 capacity i xOffset yOffset xLength yLength points)
  let ?p = "[xOffset + real (unat i) / real (unat (- 1 :: size_t)) * xLength,
             yOffset + real (unat i) / real (unat (- 1 :: size_t)) * yLength]"
  have le: "i \<le> - 1" by simp
  show ?case
  proof (cases "length points < unat capacity")
    case True
    have e: "line_loop capacity i (- 1) xOffset yOffset xLength yLength points
        = line_loop capacity (i + 1) (- 1) xOffset yOffset xLength yLength (points @ [?p])"
      by (subst line_loop.simps) (simp only: le True if_True Let_def)
    from "1.hyps" [OF le refl True] obtain added where
      a: "line_loop capacity (i + 1) (- 1) xOffset yOffset xLength yLength (points @ [?p])
          = Throws ((points @ [?p]) @ added)"
      and l: "length ((points @ [?p]) @ added) = max (length (points @ [?p])) (unat capacity)"
      and t: "\<forall>p \<in> set added. length p = 2"
      by blast
    have "line_loop capacity i (- 1) xOffset yOffset xLength yLength points
        = Throws (points @ (?p # added))"
      unfolding e a by simp
    moreover from l True have "length (points @ (?p # added)) = max (length points) (unat capacity)"
      by simp
    moreover from t have "\<forall>p \<in> set (?p # added). length p = 2" by simp
    ultimately show ?thesis by blast
  next
    case False
    have "line_loop capacity i (- 1) xOffset yOffset xLength yLength points = Throws points"
      by (subst line_loop.simps) (simp only: le False if_True if_False Let_def)
    with False show ?thesis by (intro exI [of _ "[]"]) simp
  qed
qed

lemma spiral_loop_grows:
  "numberOfPoints \<noteq> - 1 \<Longrightarrow>
   grows capacity (Suc (unat numberOfPoints) - unat i) points
     (spiral_loop capacity i numberOfPoints xOffset yOffset initialRadius initialAngle
        finishRadius finishAngle points)"
proof (induction capacity i numberOfPoints xOffset yOffset initialRadius initialAngle
    finishRadius finishAngle points rule: spiral_loop.induct)
  case (1 capacity i numberOfPoints xOffset yOffset initialRadius initialAngle finishRadius
    finishAngle points)
  define cut where "cut = real (unat i) / real (unat numberOfPoints)"
  define radius where "radius = initialRadius + cut * (finishRadius - initialRadius)"
  define angle where "angle = initialAngle + cut * (finishAngle - initialAngle)"
  let ?p = "[xOffset + radius * sin angle, yOffset + radius * cos angle]"
  show ?case
  proof (cases "i \<le> numberOfPoints")
    case False
    then have "Suc (unat numberOfPoints) - unat i = 0" by (simp add: word_le_nat_alt)
    moreover have "spiral_loop capacity i numberOfPoints xOffset yOffset initialRadius
        initialAngle finishRadius finishAngle points = Returns points"
      using False by (subst spiral_loop.simps) simp
    ultimately show ?thesis by (simp add: grows_def)
  next
    case le: True
    then have u: "unat i \<le> unat numberOfPoints" by (simp add: word_le_nat_alt)
    have s: "unat (i + 1) = Suc (unat i)" using le "1.prems" by (rule size_t_succ)
    from u have m: "Suc (unat numberOfPoints) - unat i
        = Suc (Suc (unat numberOfPoints) - unat (i + 1))"
      by (simp add: s)
    show ?thesis
    proof (cases "length points < unat capacity")
      case True
      have e: "spiral_loop capacity i numberOfPoints xOffset yOffset initialRadius
          initialAngle finishRadius finishAngle points
          = spiral_loop capacity (i + 1) numberOfPoints xOffset yOffset initialRadius
              initialAngle finishRadius finishAngle (points @ [?p])"
        by (subst spiral_loop.simps)
          (simp only: le True if_True Let_def cut_def radius_def angle_def)
      have "grows capacity (Suc (unat numberOfPoints) - unat (i + 1)) (points @ [?p])
          (spiral_loop capacity (i + 1) numberOfPoints xOffset yOffset initialRadius
              initialAngle finishRadius finishAngle (points @ [?p]))"
        using "1.IH" [OF le refl refl refl True "1.prems"]
        by (simp only: cut_def radius_def angle_def)
      then show ?thesis unfolding e m by (rule grows_step) simp
    next
      case False
      have "spiral_loop capacity i numberOfPoints xOffset yOffset initialRadius
          initialAngle finishRadius finishAngle points = Throws points"
        by (subst spiral_loop.simps) (simp only: le False if_True if_False Let_def)
      moreover from False m
      have "unat capacity < length points + (Suc (unat numberOfPoints) - unat i)" by simp
      ultimately show ?thesis using m by (simp add: grows_def)
    qed
  qed
qed

lemma spiral_loop_size_max:
  "\<exists>added. spiral_loop capacity i (- 1) xOffset yOffset initialRadius initialAngle finishRadius
         finishAngle points = Throws (points @ added)
     \<and> length (points @ added) = max (length points) (unat capacity)
     \<and> (\<forall>p \<in> set added. length p = 2)"
proof (induction capacity i "- 1 :: size_t" xOffset yOffset initialRadius initialAngle
    finishRadius finishAngle points rule: spiral_loop.induct)
  case (1 capacity i xOffset yOffset initialRadius initialAngle finishRadius finishAngle points)
  define cut where "cut = real (unat i) / real (unat (- 1 :: size_t))"
  define radius where "radius = initialRadius + cut * (finishRadius - initialRadius)"
  define angle where "angle = initialAngle + cut * (finishAngle - initialAngle)"
  let ?p = "[xOffset + radius * sin angle, yOffset + radius * cos angle]"
  have le: "i \<le> - 1" by simp
  show ?case
  proof (cases "length points < unat capacity")
    case True
    have e: "spiral_loop capacity i (- 1) xOffset yOffset initialRadius initialAngle
          finishRadius finishAngle points
        = spiral_loop capacity (i + 1) (- 1) xOffset yOffset initialRadius initialAngle
          finishRadius finishAngle (points @ [?p])"
      by (subst spiral_loop.simps)
        (simp only: le True if_True Let_def cut_def radius_def angle_def)
    from "1.hyps" [OF le refl refl refl True] obtain added where
      a: "spiral_loop capacity (i + 1) (- 1) xOffset yOffset initialRadius initialAngle
          finishRadius finishAngle (points @ [?p]) = Throws ((points @ [?p]) @ added)"
      and l: "length ((points @ [?p]) @ added) = max (length (points @ [?p])) (unat capacity)"
      and t: "\<forall>p \<in> set added. length p = 2"
      unfolding cut_def radius_def angle_def by blast
    have "spiral_loop capacity i (- 1) xOffset yOffset initialRadius initialAngle
          finishRadius finishAngle points = Throws (points @ (?p # added))"
      unfolding e a by simp
    moreover from l True have "length (points @ (?p # added)) = max (length points) (unat capacity)"
      by simp
    moreover from t have "\<forall>p \<in> set (?p # added). length p = 2" by simp
    ultimately show ?thesis by blast
  next
    case False
    have "spiral_loop capacity i (- 1) xOffset yOffset initialRadius initialAngle
          finishRadius finishAngle points = Throws points"
      by (subst spiral_loop.simps) (simp only: le False if_True if_False Let_def)
    with False show ?thesis by (intro exI [of _ "[]"]) simp
  qed
qed

lemma grows_size_max:
  assumes "points \<noteq> []"
    and "r = Throws (points @ added)"
    and "length (points @ added) = max (length points) (unat capacity)"
    and "\<forall>p \<in> set added. length p = 2"
  shows "grows capacity (unat (- 1 :: size_t)) points r"
proof -
  from assms(1) have l: "1 \<le> length points" by (cases points) simp_all
  have c: "unat capacity \<le> 18446744073709551615" by (rule unat_size_t_le)
  from assms(3) c l have "length added < 18446744073709551615" by (simp add: max_def split: if_splits)
  moreover from c l have "unat capacity < length points + 18446744073709551615" by simp
  ultimately show ?thesis
    using assms(2,4) unfolding grows_def unat_size_max by (simp only: outcome.case) blast
qed

subsection \<open>The generators\<close>

lemma line_grows:
  assumes "anchored points"
  shows "grows capacity (unat numberOfPoints) points (line capacity points len angle numberOfPoints)"
proof -
  from assms have ne: "points \<noteq> []"
    and b: "\<not> (points = [] \<or> length (points ! (length points - 1)) < 2)"
    by (auto simp: anchored_def)
  define xOffset where "xOffset = points ! (length points - 1) ! 0"
  define yOffset where "yOffset = points ! (length points - 1) ! 1"
  have l: "line capacity points len angle numberOfPoints
      = line_loop capacity 1 numberOfPoints xOffset yOffset (len * sin angle) (len * cos angle)
          points"
    unfolding line_def Let_def xOffset_def yOffset_def by (simp only: b if_False)
  show ?thesis
  proof (cases "numberOfPoints = - 1")
    case True
    from line_loop_size_max [of capacity 1 xOffset yOffset "len * sin angle" "len * cos angle"
        points]
    obtain added where
      "line_loop capacity 1 (- 1) xOffset yOffset (len * sin angle) (len * cos angle) points
        = Throws (points @ added)"
      "length (points @ added) = max (length points) (unat capacity)"
      "\<forall>p \<in> set added. length p = 2"
      by blast
    with ne have "grows capacity (unat (- 1 :: size_t)) points
        (line_loop capacity 1 (- 1) xOffset yOffset (len * sin angle) (len * cos angle) points)"
      by (rule grows_size_max)
    then show ?thesis by (simp only: l [unfolded True] True)
  next
    case False
    from line_loop_grows [OF False, of capacity 1] show ?thesis unfolding l by simp
  qed
qed

lemma spiral_grows:
  assumes "anchored points"
  shows "grows capacity (unat numberOfPoints) points
    (spiral capacity points initialRadius initialAngle finishRadius finishAngle numberOfPoints)"
proof -
  from assms have ne: "points \<noteq> []"
    and b: "\<not> (points = [] \<or> length (points ! (length points - 1)) < 2)"
    by (auto simp: anchored_def)
  define xOffset where
    "xOffset = points ! (length points - 1) ! 0 - initialRadius * sin initialAngle"
  define yOffset where
    "yOffset = points ! (length points - 1) ! 1 - initialRadius * cos initialAngle"
  have l: "spiral capacity points initialRadius initialAngle finishRadius finishAngle
        numberOfPoints
      = spiral_loop capacity 1 numberOfPoints xOffset yOffset initialRadius initialAngle
          finishRadius finishAngle points"
    unfolding spiral_def Let_def xOffset_def yOffset_def by (simp only: b if_False)
  show ?thesis
  proof (cases "numberOfPoints = - 1")
    case True
    from spiral_loop_size_max [of capacity 1 xOffset yOffset initialRadius initialAngle
        finishRadius finishAngle points]
    obtain added where
      "spiral_loop capacity 1 (- 1) xOffset yOffset initialRadius initialAngle finishRadius
          finishAngle points = Throws (points @ added)"
      "length (points @ added) = max (length points) (unat capacity)"
      "\<forall>p \<in> set added. length p = 2"
      by blast
    with ne have "grows capacity (unat (- 1 :: size_t)) points
        (spiral_loop capacity 1 (- 1) xOffset yOffset initialRadius initialAngle finishRadius
          finishAngle points)"
      by (rule grows_size_max)
    then show ?thesis by (simp only: l [unfolded True] True)
  next
    case False
    from spiral_loop_grows [OF False, of capacity 1] show ?thesis unfolding l by simp
  qed
qed

lemma sector_grows:
  "anchored points \<Longrightarrow>
   grows capacity (unat numberOfPoints) points
     (sector capacity points radius initialAngle finishAngle numberOfPoints)"
  unfolding sector_def by (rule spiral_grows)

lemma circle_grows:
  "anchored points \<Longrightarrow>
   grows capacity (unat numberOfPoints) points (circle capacity points radius angle numberOfPoints)"
  unfolding circle_def by (rule spiral_grows)

lemma line_defined:
  "line capacity points len angle numberOfPoints \<noteq> Undefined_behaviour \<Longrightarrow> anchored points"
  by (auto simp: line_def anchored_def not_less split: if_splits)

lemma spiral_defined:
  "spiral capacity points initialRadius initialAngle finishRadius finishAngle numberOfPoints
     \<noteq> Undefined_behaviour \<Longrightarrow> anchored points"
  by (auto simp: spiral_def anchored_def not_less split: if_splits)

lemma rectangle_loop_grows:
  "anchored points \<Longrightarrow> i \<le> 4 \<Longrightarrow>
   grows capacity ((4 - unat i) * unat numberOfPoints) points
     (rectangle_loop capacity i len angle width height numberOfPoints points)"
proof (induction capacity i len angle width height numberOfPoints points
    rule: rectangle_loop.induct)
  case (1 capacity i len angle width height numberOfPoints points)
  show ?case
  proof (cases "i < 4")
    case True
    then have u: "unat i < 4" by (simp add: word_less_nat_alt)
    then have s: "unat (i + 1) = Suc (unat i)" by (simp add: unat_add_lem [THEN iffD1])
    with u have le: "i + 1 \<le> 4" by (simp add: word_le_nat_alt)
    have "grows capacity (unat numberOfPoints + (4 - unat (i + 1)) * unat numberOfPoints) points
        (continue_with (line capacity points len angle numberOfPoints) (\<lambda>points.
           rectangle_loop capacity (i + 1) (if 0 = i mod 2 then height else width)
             (angle + 0.5 * conn_pi) width height numberOfPoints points))"
      using line_grows [OF "1.prems"(1)] "1.prems"(1)
    proof (rule grows_continue_with)
      fix ps assume "anchored ps"
      then show "grows capacity ((4 - unat (i + 1)) * unat numberOfPoints) ps
          (rectangle_loop capacity (i + 1) (if 0 = i mod 2 then height else width)
             (angle + 0.5 * conn_pi) width height numberOfPoints ps)"
        using "1.IH" [OF True] le by blast
    qed
    moreover have "unat numberOfPoints + (4 - unat (i + 1)) * unat numberOfPoints
        = (4 - unat i) * unat numberOfPoints"
      using u s by (simp add: algebra_simps Suc_diff_Suc flip: mult_Suc)
    ultimately show ?thesis
      by (subst rectangle_loop.simps) (simp only: True if_True)
  next
    case False
    with "1.prems"(2) have "i = 4" by simp
    then show ?thesis
      by (subst rectangle_loop.simps) (simp add: grows_def)
  qed
qed

lemma rectangle_grows:
  "anchored points \<Longrightarrow>
   grows capacity (4 * unat numberOfPoints) points
     (rectangle capacity points width height angle numberOfPoints)"
  using rectangle_loop_grows [of points 0 capacity numberOfPoints width angle width height]
  by (simp add: rectangle_def)

lemma square_grows:
  "anchored points \<Longrightarrow>
   grows capacity (4 * unat numberOfPoints) points (square capacity points len angle numberOfPoints)"
  unfolding square_def by (rule rectangle_grows)

lemma squiggle_loop_grows:
  "anchored points \<Longrightarrow>
   grows capacity ((unat numberOfLines - unat i) * (2 * unat numberOfPoints)) points
     (squiggle_loop capacity i numberOfLines numberOfPoints len radius rotationAngle angle
        nextAngle initialRotationAngle points)"
proof (induction capacity i numberOfLines numberOfPoints len radius rotationAngle angle
    nextAngle initialRotationAngle points rule: squiggle_loop.induct)
  case (1 capacity i numberOfLines numberOfPoints len radius rotationAngle angle nextAngle
    initialRotationAngle points)
  show ?case
  proof (cases "i < numberOfLines")
    case True
    then have u: "unat i < unat numberOfLines" by (simp add: word_less_nat_alt)
    have "unat numberOfLines < 2 ^ 64" using unsigned_less [of numberOfLines] by simp
    with u have s: "unat (i + 1) = Suc (unat i)" by (simp add: unat_add_lem [THEN iffD1])
    let ?m = "(unat numberOfLines - unat (i + 1)) * (2 * unat numberOfPoints)"
    have "grows capacity (unat numberOfPoints + (unat numberOfPoints + ?m)) points
       (continue_with
             (sector capacity points radius (angle + initialRotationAngle)
                (nextAngle + initialRotationAngle) numberOfPoints) (\<lambda>points.
           continue_with (line capacity points len nextAngle numberOfPoints) (\<lambda>points.
                squiggle_loop capacity (i + 1) numberOfLines numberOfPoints len radius
                  rotationAngle nextAngle
                  (if 0 = i mod 2 then nextAngle + rotationAngle else nextAngle - rotationAngle)
                  (initialRotationAngle * (- 1)) points)))"
      using sector_grows [OF "1.prems"] "1.prems"
    proof (rule grows_continue_with)
      fix ps assume ps: "anchored ps"
      show "grows capacity (unat numberOfPoints + ?m) ps
          (continue_with (line capacity ps len nextAngle numberOfPoints) (\<lambda>points.
                squiggle_loop capacity (i + 1) numberOfLines numberOfPoints len radius
                  rotationAngle nextAngle
                  (if 0 = i mod 2 then nextAngle + rotationAngle else nextAngle - rotationAngle)
                  (initialRotationAngle * (- 1)) points))"
        using line_grows [OF ps] ps
      proof (rule grows_continue_with)
        fix qs assume "anchored qs"
        then show "grows capacity ?m qs
          (squiggle_loop capacity (i + 1) numberOfLines numberOfPoints len radius
                  rotationAngle nextAngle
                  (if 0 = i mod 2 then nextAngle + rotationAngle else nextAngle - rotationAngle)
                  (initialRotationAngle * (- 1)) qs)"
          using "1.IH" [OF True refl refl] by blast
      qed
    qed
    moreover have "unat numberOfPoints + (unat numberOfPoints + ?m)
        = (unat numberOfLines - unat i) * (2 * unat numberOfPoints)"
    proof -
      from u s have "unat numberOfLines - unat i = Suc (unat numberOfLines - unat (i + 1))"
        by simp
      then show ?thesis by simp
    qed
    ultimately show ?thesis
      by (subst squiggle_loop.simps) (simp only: True if_True Let_def)
  next
    case False
    then have "unat numberOfLines - unat i = 0" by (simp add: word_less_nat_alt)
    with False show ?thesis
      by (subst squiggle_loop.simps) (simp add: grows_def)
  qed
qed

lemma squiggle_grows:
  assumes "anchored points"
  shows "grows capacity (unat numberOfPoints + (unat numberOfLines - 1) * (2 * unat numberOfPoints))
    points (squiggle capacity points len radius angle rotationAngle numberOfLines numberOfPoints)"
  unfolding squiggle_def Let_def
  using line_grows [OF assms] assms
proof (rule grows_continue_with)
  fix ps assume "anchored ps"
  from squiggle_loop_grows [OF this, of capacity numberOfLines 1]
  show "grows capacity ((unat numberOfLines - 1) * (2 * unat numberOfPoints)) ps
    (squiggle_loop capacity 1 numberOfLines numberOfPoints len radius rotationAngle angle
       (angle + rotationAngle) (- 0.5 * conn_pi) ps)"
    by simp
qed

lemma letterPi_grows:
  assumes a: "anchored points"
  shows "grows capacity (7 * unat numberOfPoints) points
    (letterPi capacity points verticalLength horizontalLength radius angle numberOfPoints)"
proof -
  let ?n = "unat numberOfPoints"
  have "grows capacity (?n + (?n + (?n + (?n + (?n + (?n + ?n)))))) points
    (letterPi capacity points verticalLength horizontalLength radius angle numberOfPoints)"
    unfolding letterPi_def Let_def
    by (intro grows_continue_with sector_grows line_grows a)
  moreover have "?n + (?n + (?n + (?n + (?n + (?n + ?n))))) = 7 * ?n" by arith
  ultimately show ?thesis by (simp only:)
qed

lemma rectangle_defined:
  assumes "rectangle capacity points width height angle numberOfPoints \<noteq> Undefined_behaviour"
  shows "anchored points"
proof -
  from assms have "continue_with (line capacity points width angle numberOfPoints) (\<lambda>points.
      rectangle_loop capacity (0 + 1) (if 0 = (0 :: size_t) mod 2 then height else width)
        (angle + 0.5 * conn_pi) width height numberOfPoints points) \<noteq> Undefined_behaviour"
    unfolding rectangle_def by (subst (asm) rectangle_loop.simps) simp
  then have "line capacity points width angle numberOfPoints \<noteq> Undefined_behaviour"
    by (rule continue_with_defined)
  then show ?thesis by (rule line_defined)
qed

lemma squiggle_defined:
  assumes "squiggle capacity points len radius angle rotationAngle numberOfLines numberOfPoints
    \<noteq> Undefined_behaviour"
  shows "anchored points"
proof -
  from assms have "line capacity points len angle numberOfPoints \<noteq> Undefined_behaviour"
    unfolding squiggle_def by (rule continue_with_defined)
  then show ?thesis by (rule line_defined)
qed

lemma letterPi_defined:
  assumes "letterPi capacity points verticalLength horizontalLength radius angle numberOfPoints
    \<noteq> Undefined_behaviour"
  shows "anchored points"
proof -
  from assms have
    "sector capacity points radius (angle + conn_pi) (angle + conn_pi + - 0.5 * conn_pi)
       numberOfPoints \<noteq> Undefined_behaviour"
    unfolding letterPi_def Let_def by (rule continue_with_defined)
  then show ?thesis unfolding sector_def by (rule spiral_defined)
qed

text \<open>
  What a generator's outcome tells when the call has stayed inside the vectors and is known
  to grow the track by \<open>m\<close> points.
\<close>

lemma generator_outcome:
  assumes d: "r \<noteq> Undefined_behaviour \<Longrightarrow> anchored points"
    and g: "anchored points \<Longrightarrow> grows capacity m points r"
  shows "(\<forall>points'. r = Returns points' \<or> r = Throws points' \<longrightarrow> prefix points points')
    \<and> (\<forall>points'. r = Returns points' \<longrightarrow> length points' = length points + m)
    \<and> (anchored points \<and> length points + m \<le> unat capacity \<longrightarrow> (\<exists>points'. r = Returns points'))"
proof (intro conjI allI impI)
  fix points' assume "r = Returns points' \<or> r = Throws points'"
  then show "prefix points points'"
    using g [OF d] by (auto dest: grows_Returns grows_Throws)
next
  fix points' assume "r = Returns points'"
  then show "length points' = length points + m"
    using g [OF d] by (auto dest: grows_Returns)
next
  assume "anchored points \<and> length points + m \<le> unat capacity"
  then show "\<exists>points'. r = Returns points'"
    using g by (blast intro: grows_fits)
qed

text \<open>
  Three calls evaluated: a line of length 2 heading north, the same line on a vector that
  holds two points only, and an arc of zero sweep.
\<close>

lemma line_example: "line 10 [[0, 0]] 2 0 2 = Returns [[0, 0], [0, 1], [0, 2]]"
  by (simp add: line_def line_loop.simps)

lemma line_example_full: "line 2 [[0, 0]] 2 0 2 = Throws [[0, 0], [0, 1]]"
  by (simp add: line_def line_loop.simps)

lemma spiral_example:
  "spiral 10 [[0, 1]] 1 0 1 0 2 = Returns [[0, 1], [0, 1], [0, 1]]"
  by (simp add: spiral_def spiral_loop.simps)



text \<open>
  C9. Each of the generators \<^verbatim>\<open>line\<close>, \<^verbatim>\<open>rectangle\<close>, \<^verbatim>\<open>square\<close>, \<^verbatim>\<open>spiral\<close>,
  \<^verbatim>\<open>sector\<close>, \<^verbatim>\<open>circle\<close>, \<^verbatim>\<open>squiggle\<close> and \<^verbatim>\<open>letterPi\<close> only appends:
  with any parameters, the track before the call is a prefix of the track the call leaves,
  after a normal return and after a throw of \<^verbatim>\<open>push_back\<close> alike. On an anchored track
  the call returns normally whenever the vector can hold the points the call appends.
\<close>

theorem generators_only_append:
  "(\<forall>points'. line capacity points len angle numberOfPoints = Returns points'
        \<or> line capacity points len angle numberOfPoints = Throws points' \<longrightarrow>
        prefix points points')
   \<and> (anchored points \<and> length points + unat numberOfPoints \<le> unat capacity \<longrightarrow>
      (\<exists>points'. line capacity points len angle numberOfPoints = Returns points'))
   \<and> (\<forall>points'. rectangle capacity points width height angle numberOfPoints = Returns points'
        \<or> rectangle capacity points width height angle numberOfPoints = Throws points' \<longrightarrow>
        prefix points points')
   \<and> (anchored points \<and> length points + 4 * unat numberOfPoints \<le> unat capacity \<longrightarrow>
      (\<exists>points'. rectangle capacity points width height angle numberOfPoints = Returns points'))
   \<and> (\<forall>points'. square capacity points len angle numberOfPoints = Returns points'
        \<or> square capacity points len angle numberOfPoints = Throws points' \<longrightarrow>
        prefix points points')
   \<and> (anchored points \<and> length points + 4 * unat numberOfPoints \<le> unat capacity \<longrightarrow>
      (\<exists>points'. square capacity points len angle numberOfPoints = Returns points'))
   \<and> (\<forall>points'. spiral capacity points initialRadius initialAngle finishRadius finishAngle
          numberOfPoints = Returns points'
        \<or> spiral capacity points initialRadius initialAngle finishRadius finishAngle
          numberOfPoints = Throws points' \<longrightarrow>
        prefix points points')
   \<and> (anchored points \<and> length points + unat numberOfPoints \<le> unat capacity \<longrightarrow>
      (\<exists>points'. spiral capacity points initialRadius initialAngle finishRadius finishAngle
          numberOfPoints = Returns points'))
   \<and> (\<forall>points'. sector capacity points radius initialAngle finishAngle numberOfPoints
          = Returns points'
        \<or> sector capacity points radius initialAngle finishAngle numberOfPoints
          = Throws points' \<longrightarrow>
        prefix points points')
   \<and> (anchored points \<and> length points + unat numberOfPoints \<le> unat capacity \<longrightarrow>
      (\<exists>points'. sector capacity points radius initialAngle finishAngle numberOfPoints
          = Returns points'))
   \<and> (\<forall>points'. circle capacity points radius angle numberOfPoints = Returns points'
        \<or> circle capacity points radius angle numberOfPoints = Throws points' \<longrightarrow>
        prefix points points')
   \<and> (anchored points \<and> length points + unat numberOfPoints \<le> unat capacity \<longrightarrow>
      (\<exists>points'. circle capacity points radius angle numberOfPoints = Returns points'))
   \<and> (\<forall>points'. squiggle capacity points len radius angle rotationAngle numberOfLines
          numberOfPoints = Returns points'
        \<or> squiggle capacity points len radius angle rotationAngle numberOfLines
          numberOfPoints = Throws points' \<longrightarrow>
        prefix points points')
   \<and> (anchored points
        \<and> length points + (unat numberOfPoints + (unat numberOfLines - 1) * (2 * unat numberOfPoints))
          \<le> unat capacity \<longrightarrow>
      (\<exists>points'. squiggle capacity points len radius angle rotationAngle numberOfLines
          numberOfPoints = Returns points'))
   \<and> (\<forall>points'. letterPi capacity points verticalLength horizontalLength radius angle
          numberOfPoints = Returns points'
        \<or> letterPi capacity points verticalLength horizontalLength radius angle
          numberOfPoints = Throws points' \<longrightarrow>
        prefix points points')
   \<and> (anchored points \<and> length points + 7 * unat numberOfPoints \<le> unat capacity \<longrightarrow>
      (\<exists>points'. letterPi capacity points verticalLength horizontalLength radius angle
          numberOfPoints = Returns points'))"
proof -
  have square_defined: "anchored points"
    if "square capacity points len angle numberOfPoints \<noteq> Undefined_behaviour"
    using that unfolding square_def by (rule rectangle_defined)
  have sector_defined: "anchored points"
    if "sector capacity points radius initialAngle finishAngle numberOfPoints
      \<noteq> Undefined_behaviour"
    using that unfolding sector_def by (rule spiral_defined)
  have circle_defined: "anchored points"
    if "circle capacity points radius angle numberOfPoints \<noteq> Undefined_behaviour"
    using that unfolding circle_def by (rule spiral_defined)
  note l = generator_outcome [where r = "line capacity points len angle numberOfPoints"
      and points = points and capacity = capacity and m = "unat numberOfPoints",
      OF line_defined line_grows]
  note r = generator_outcome [where
      r = "rectangle capacity points width height angle numberOfPoints"
      and points = points and capacity = capacity and m = "4 * unat numberOfPoints",
      OF rectangle_defined rectangle_grows]
  note q = generator_outcome [where r = "square capacity points len angle numberOfPoints"
      and points = points and capacity = capacity and m = "4 * unat numberOfPoints",
      OF square_defined square_grows]
  note s = generator_outcome [where
      r = "spiral capacity points initialRadius initialAngle finishRadius finishAngle
        numberOfPoints"
      and points = points and capacity = capacity and m = "unat numberOfPoints",
      OF spiral_defined spiral_grows]
  note t = generator_outcome [where
      r = "sector capacity points radius initialAngle finishAngle numberOfPoints"
      and points = points and capacity = capacity and m = "unat numberOfPoints",
      OF sector_defined sector_grows]
  note c = generator_outcome [where r = "circle capacity points radius angle numberOfPoints"
      and points = points and capacity = capacity and m = "unat numberOfPoints",
      OF circle_defined circle_grows]
  note g = generator_outcome [where
      r = "squiggle capacity points len radius angle rotationAngle numberOfLines numberOfPoints"
      and points = points and capacity = capacity
      and m = "unat numberOfPoints + (unat numberOfLines - 1) * (2 * unat numberOfPoints)",
      OF squiggle_defined squiggle_grows]
  note p = generator_outcome [where
      r = "letterPi capacity points verticalLength horizontalLength radius angle numberOfPoints"
      and points = points and capacity = capacity and m = "7 * unat numberOfPoints",
      OF letterPi_defined letterPi_grows]
  show ?thesis
    apply (intro conjI)
    subgoal using l by blast
    subgoal using l by blast
    subgoal using r by blast
    subgoal using r by blast
    subgoal using q by blast
    subgoal using q by blast
    subgoal using s by blast
    subgoal using s by blast
    subgoal using t by blast
    subgoal using t by blast
    subgoal using c by blast
    subgoal using c by blast
    subgoal using g by blast
    subgoal using g by blast
    subgoal using p by blast
    subgoal using p by blast
    done
qed

theorem generators_only_append_witness:
  "anchored [[0, 0]] \<and> length [[0 :: real, 0]] + 7 * unat (2 :: size_t) \<le> unat (100 :: size_t)
   \<and> (\<exists>points'. line 100 [[0, 0]] 1 0 2 = Returns points' \<and> prefix [[0, 0]] points')
   \<and> (\<exists>points'. rectangle 100 [[0, 0]] 2 1 0 2 = Returns points' \<and> prefix [[0, 0]] points')
   \<and> (\<exists>points'. square 100 [[0, 0]] 1 0 2 = Returns points' \<and> prefix [[0, 0]] points')
   \<and> (\<exists>points'. spiral 100 [[0, 0]] 1 0 2 1 2 = Returns points' \<and> prefix [[0, 0]] points')
   \<and> (\<exists>points'. sector 100 [[0, 0]] 1 0 1 2 = Returns points' \<and> prefix [[0, 0]] points')
   \<and> (\<exists>points'. circle 100 [[0, 0]] 1 0 2 = Returns points' \<and> prefix [[0, 0]] points')
   \<and> (\<exists>points'. squiggle 100 [[0, 0]] 1 1 0 1 3 2 = Returns points' \<and> prefix [[0, 0]] points')
   \<and> (\<exists>points'. letterPi 100 [[0, 0]] 2 1 1 0 2 = Returns points' \<and> prefix [[0, 0]] points')"
proof -
  have a: "anchored [[0, 0]]" by (simp add: anchored_def)
  have f: "length [[0 :: real, 0]] + unat (2 :: size_t) \<le> unat (100 :: size_t)"
    "length [[0 :: real, 0]] + 4 * unat (2 :: size_t) \<le> unat (100 :: size_t)"
    "length [[0 :: real, 0]] + (unat (2 :: size_t) + (unat (3 :: size_t) - 1) * (2 * unat (2 :: size_t)))
      \<le> unat (100 :: size_t)"
    "length [[0 :: real, 0]] + 7 * unat (2 :: size_t) \<le> unat (100 :: size_t)"
    by simp_all
  note t = generators_only_append [where capacity = 100 and points = "[[0, 0]]"
      and numberOfPoints = 2
      and len = 1 and angle = 0 and width = 2 and height = 1 and initialRadius = 1
      and initialAngle = 0 and finishRadius = 2 and finishAngle = 1 and radius = 1
      and rotationAngle = 1 and numberOfLines = 3 and verticalLength = 2
      and horizontalLength = 1]
  from a f t show ?thesis by blast
qed




text \<open>
  C10. On an anchored track, \<^verbatim>\<open>line\<close>, \<^verbatim>\<open>spiral\<close>, \<^verbatim>\<open>sector\<close> and \<^verbatim>\<open>circle\<close>
  called with \<open>numberOfPoints = 0\<close> return normally with the track unchanged: the loop test
  \<^verbatim>\<open>1 <= 0\<close> fails at once, so the body and its division by \<open>numberOfPoints\<close> never run.
\<close>

theorem zero_points_leave_track_unchanged:
  assumes "anchored points"
  shows "line capacity points len angle 0 = Returns points
    \<and> spiral capacity points initialRadius initialAngle finishRadius finishAngle 0 = Returns points
    \<and> sector capacity points radius initialAngle finishAngle 0 = Returns points
    \<and> circle capacity points radius angle 0 = Returns points"
proof -
  have l: "line_loop capacity 1 0 xOffset yOffset xLength yLength points = Returns points"
    for xOffset yOffset xLength yLength
    by (subst line_loop.simps) simp
  have s: "spiral_loop capacity 1 0 xOffset yOffset r0 a0 r1 a1 points = Returns points"
    for xOffset yOffset r0 a0 r1 a1
    by (subst spiral_loop.simps) simp
  from assms have b: "\<not> (points = [] \<or> length (points ! (length points - 1)) < 2)"
    by (auto simp: anchored_def)
  have 1: "line capacity points len angle 0 = Returns points"
    unfolding line_def Let_def by (simp only: b if_False l)
  have 2: "spiral capacity points r0 a0 r1 a1 0 = Returns points" for r0 a0 r1 a1
    unfolding spiral_def Let_def by (simp only: b if_False s)
  from 1 2 show ?thesis by (simp add: sector_def circle_def)
qed

theorem zero_points_leave_track_unchanged_witness:
  "anchored [[0, 0], [3, 4]]
   \<and> line 100 [[0, 0], [3, 4]] 1000 0 0 = Returns [[0, 0], [3, 4]]
   \<and> spiral 100 [[0, 0], [3, 4]] 1 0 2 1 0 = Returns [[0, 0], [3, 4]]
   \<and> sector 100 [[0, 0], [3, 4]] 1 0 1 0 = Returns [[0, 0], [3, 4]]
   \<and> circle 100 [[0, 0], [3, 4]] 1 0 0 = Returns [[0, 0], [3, 4]]"
proof -
  have a: "anchored [[0, 0], [3, 4]]" by (simp add: anchored_def)
  from zero_points_leave_track_unchanged [OF a, where capacity = 100 and len = 1000
      and angle = 0 and initialRadius = 1 and initialAngle = 0 and finishRadius = 2
      and finishAngle = 1 and radius = 1] a
  show ?thesis by simp
qed

section \<open>Destination point: range of the longitude\<close>











text \<open>
  For an origin longitude far below \<open>-180\<close> the argument of \<^verbatim>\<open>fmod\<close> is negative and so
  is its result: the returned longitude is then below \<open>-180\<close>.
\<close>

lemma destination_far_west: "destination 0 (- 1000) 0 0 False = [0, - 280]"
proof -
  have "conn_pi \<noteq> 0" by (simp add: conn_pi_def)
  moreover have "\<lceil>- (23 / 18) :: real\<rceil> = - 1" by (simp add: ceiling_eq_iff)
  ultimately show ?thesis
    by (simp add: destination_def Let_def radiansFromDegrees_def degreesFromRadians_def
        c_atan2_def c_fmod_def c_trunc_def)
qed

section \<open>Distance to the destination point\<close>








end
